theory Spec2Isabelle
  imports Complex_Main "HOL-Library.Log_Nat"
begin

section \<open>Python values used by the application\<close>

subsection \<open>Strings\<close>

text \<open>
  A Python \<open>str\<close> is a sequence of Unicode code points, so it is modelled as a list of
  natural numbers (not of bytes). The texts written in the source are all ASCII; \<open>ustr\<close>
  turns such a literal into its code points.
\<close>

type_synonym codepoint = nat
type_synonym pystr = "codepoint list"

definition ustr :: "string \<Rightarrow> pystr" where
  "ustr s = map of_char s"

text \<open>
  \<open>str.isspace\<close> on one code point: the characters Python treats as whitespace
  (bidirectional class WS, B or S, or category Zs). \<open>str.strip()\<close> without an
  argument removes exactly these from both ends.
\<close>

definition isspace :: "codepoint \<Rightarrow> bool" where
  "isspace c \<longleftrightarrow>
     (9 \<le> c \<and> c \<le> 13) \<or> (28 \<le> c \<and> c \<le> 32) \<or> c = 133 \<or> c = 160 \<or> c = 5760 \<or>
     (8192 \<le> c \<and> c \<le> 8202) \<or> c = 8232 \<or> c = 8233 \<or> c = 8239 \<or> c = 8287 \<or>
     c = 12288"

definition lstrip :: "pystr \<Rightarrow> pystr" where
  "lstrip s = dropWhile isspace s"

definition rstrip :: "pystr \<Rightarrow> pystr" where
  "rstrip s = rev (dropWhile isspace (rev s))"

definition strip :: "pystr \<Rightarrow> pystr" where
  "strip s = rstrip (lstrip s)"

text \<open>\<open>sep.join(xs)\<close>.\<close>

fun join :: "pystr \<Rightarrow> pystr list \<Rightarrow> pystr" where
  "join sep [] = []"
| "join sep [x] = x"
| "join sep (x # y # ys) = x @ sep @ join sep (y # ys)"

subsection \<open>Exceptions\<close>

text \<open>
  The exceptions that can travel through the application, each with what \<open>str(e)\<close>
  is made from. \<open>RuntimeError\<close> is what the two agents raise when a completion fails.
  \<open>ValidationError\<close> is pydantic's, with one entry per failed check: the field and the
  violated bound or the message of the field validator.
\<close>

datatype validation_error =
    Missing pystr
  | StringTooShort pystr nat
  | ValueError pystr pystr
  | GreaterThanEqual pystr int
  | LessThanEqual pystr int

datatype exn =
    RuntimeError pystr
  | OverflowError pystr
  | ZeroDivisionError pystr
  | ValidationError "validation_error list"
  | OSError pystr

subsection \<open>Floats\<close>

text \<open>
  A finite \<open>float\<close> is an IEEE binary64 number; it is modelled by the rational it
  denotes, so that comparing two floats is comparing two rationals. \<open>binary64 x\<close> is
  the double nearest to the rational \<open>x\<close>, ties going to the even significand:
  \<open>ilog2 x\<close> is the exponent of the binade of a positive \<open>x\<close>, the spacing of the
  doubles there is \<open>2 powi (ilog2 x - 52)\<close>, and below \<open>2 powi (-1022)\<close> it is the
  subnormal spacing. A decimal literal of the source such as \<open>0.33\<close> denotes
  \<open>binary64 (33 / 100)\<close>, and the true division \<open>a / b\<close> of two Python integers is
  the correctly rounded quotient, or raises when the divisor is zero or the result is
  beyond the largest double.
\<close>

definition round_half_even :: "rat \<Rightarrow> int" where
  "round_half_even x =
     (let n = \<lfloor>x\<rfloor>; r = x - of_int n
      in if r < 1 / 2 then n else if 1 / 2 < r then n + 1 else if even n then n else n + 1)"

definition ilog2 :: "rat \<Rightarrow> int" where
  "ilog2 x =
     (let (p, q) = quotient_of x; k = bitlen p - bitlen q
      in if 2 powi k \<le> x then k else k - 1)"

definition ulp_exp :: "rat \<Rightarrow> int" where
  "ulp_exp x = max (ilog2 x) (- 1022)"

definition binary64_pos :: "rat \<Rightarrow> rat" where
  "binary64_pos x =
     (let u = 2 powi (ulp_exp x - 52)
      in of_int (round_half_even (x / u)) * u)"

definition binary64 :: "rat \<Rightarrow> rat" where
  "binary64 x =
     (if x = 0 then 0 else if x < 0 then - binary64_pos (- x) else binary64_pos x)"

definition truediv :: "int \<Rightarrow> int \<Rightarrow> exn + rat" where
  "truediv a b =
     (if b = 0 then Inl (ZeroDivisionError (ustr ''division by zero''))
      else let r = binary64 (of_int a / of_int b)
           in if 2 ^ 1024 \<le> \<bar>r\<bar>
              then Inl (OverflowError (ustr ''integer division result too large for a float''))
              else Inr r)"

section \<open>The completion service\<close>

text \<open>
  \<open>client.chat.completions.create(model, messages, temperature, max_tokens)\<close> is a call
  to an external service. A request records the keyword arguments of the call. The
  service is a parameter of the model: given the API key, the requests made before and
  the request, it either raises (with the text \<open>str(e)\<close> of the exception) or returns a
  response, of which the code reads \<open>choices[i].message.content\<close>: a list with one
  optional text per choice. Every call is appended to a log, the only trace the
  application leaves outside itself besides the saved file.
\<close>

record message =
  role :: pystr
  content :: pystr

record request =
  req_model :: pystr
  messages :: "message list"
  temperature :: rat
  max_tokens :: int

datatype api_result = ApiRaise pystr | ApiResponse "pystr option list"

type_synonym service = "pystr \<Rightarrow> request list \<Rightarrow> request \<Rightarrow> api_result"

text \<open>
  The body of both \<open>try\<close> blocks, \<open>response.choices[0].message.content.strip()\<close>:
  \<open>Inl\<close> carries \<open>str(e)\<close> of whatever was raised inside the block (by the call, by
  indexing an empty list of choices, or by \<open>.strip()\<close> on a missing content).
\<close>

definition first_content :: "api_result \<Rightarrow> pystr + pystr" where
  "first_content r =
     (case r of
        ApiRaise m \<Rightarrow> Inl m
      | ApiResponse [] \<Rightarrow> Inl (ustr ''list index out of range'')
      | ApiResponse (None # _) \<Rightarrow>
          Inl ([39] @ ustr ''NoneType'' @ [39] @ ustr '' object has no attribute '' @
               [39] @ ustr ''strip'' @ [39])
      | ApiResponse (Some c # _) \<Rightarrow> Inr (strip c))"

section \<open>agents.py\<close>

text \<open>
  The two agents and the loop that drives them. The calls to the logger are left out:
  they return nothing and change nothing that the functions compute.
\<close>

subsection \<open>QuestionAgent\<close>

record agent =
  api_key :: pystr
  model :: pystr

record QuestionAgent = agent +
  difficulty_levels :: "pystr list"
  question_history :: "pystr list"

definition QuestionAgent_init :: "pystr \<Rightarrow> QuestionAgent" where
  "QuestionAgent_init key =
     \<lparr>api_key = key, model = ustr ''gpt-4o-mini'',
      difficulty_levels = [ustr ''easy'', ustr ''medium'', ustr ''hard''],
      question_history = []\<rparr>"

text \<open>Lines 31 to 37 of \<open>generate_question\<close>: the difficulty of an iteration.\<close>

definition progress :: "int \<Rightarrow> int \<Rightarrow> exn + rat" where
  "progress iteration total_iterations = truediv iteration (max (total_iterations - 1) 1)"

definition difficulty :: "int \<Rightarrow> int \<Rightarrow> exn + pystr" where
  "difficulty iteration total_iterations =
     (case progress iteration total_iterations of
        Inl e \<Rightarrow> Inl e
      | Inr p \<Rightarrow>
          Inr (if p < binary64 (33 / 100) then ustr ''easy''
               else if p < binary64 (66 / 100) then ustr ''medium''
               else ustr ''hard''))"

text \<open>Lines 40 to 44: the last three questions of the history, as a text.\<close>

definition history_window :: "pystr list \<Rightarrow> pystr list" where
  "history_window h = drop (length h - 3) h"

definition history_context :: "pystr list \<Rightarrow> pystr" where
  "history_context h =
     (if h \<noteq> []
      then ustr ''\<newline>\<newline>Previously asked questions:\<newline>'' @
           join (ustr ''\<newline>'') (map (\<lambda>q. ustr ''- '' @ q) (history_window h))
      else [])"

definition question_prompt :: "pystr \<Rightarrow> pystr \<Rightarrow> pystr \<Rightarrow> pystr" where
  "question_prompt d subject ctx =
     ustr ''You are an expert educator creating '' @ d @
     ustr '' level questions about '' @ subject @
     ustr ''.\<newline>\<newline>Generate ONE clear, unambiguous question about '' @ subject @
     ustr '' at '' @ d @
     ustr '' difficulty level.\<newline>\<newline>Requirements:\<newline>'' @
     ustr ''- The question must be specific and answerable\<newline>'' @
     ustr ''- Make it different from previous questions in style and focus\<newline>'' @
     ustr ''- For easy: focus on definitions and basic concepts\<newline>'' @
     ustr ''- For medium: focus on application and understanding\<newline>'' @
     ustr ''- For hard: focus on analysis, synthesis, or complex scenarios\<newline>'' @
     ustr ''- Do not repeat similar questions\<newline>'' @ ctx @
     ustr ''\<newline>\<newline>Generate only the question, no explanations or preamble.''"

definition question_request :: "QuestionAgent \<Rightarrow> pystr \<Rightarrow> request" where
  "question_request self prompt =
     \<lparr>req_model = model self,
      messages =
        [\<lparr>role = ustr ''system'',
          content = ustr ''You are a helpful assistant that generates educational questions.''\<rparr>,
         \<lparr>role = ustr ''user'', content = prompt\<rparr>],
      temperature = binary64 (7 / 10),
      max_tokens = 200\<rparr>"

text \<open>
  \<open>generate_question\<close>. The agent and the log of calls are passed in and returned. The
  difficulty is computed before the \<open>try\<close>, so an error there is not wrapped; anything
  raised inside the \<open>try\<close> becomes a \<open>RuntimeError\<close>, and the history is then left as
  it was.
\<close>

definition generate_question ::
  "service \<Rightarrow> pystr \<Rightarrow> int \<Rightarrow> int \<Rightarrow> QuestionAgent \<times> request list \<Rightarrow>
     (exn + pystr) \<times> QuestionAgent \<times> request list" where
  "generate_question svc subject iteration total_iterations st =
     (let (self, trace) = st
      in case difficulty iteration total_iterations of
           Inl e \<Rightarrow> (Inl e, self, trace)
         | Inr d \<Rightarrow>
             (let prompt = question_prompt d subject (history_context (question_history self));
                  req = question_request self prompt
              in case first_content (svc (api_key self) trace req) of
                   Inl m \<Rightarrow>
                     (Inl (RuntimeError (ustr ''Failed to generate question: '' @ m)),
                      self, trace @ [req])
                 | Inr q \<Rightarrow>
                     (Inr q, self\<lparr>question_history := question_history self @ [q]\<rparr>,
                      trace @ [req])))"

subsection \<open>AnswerAgent\<close>

definition AnswerAgent_init :: "pystr \<Rightarrow> agent" where
  "AnswerAgent_init key = \<lparr>api_key = key, model = ustr ''gpt-4o-mini''\<rparr>"

definition answer_prompt :: "pystr \<Rightarrow> pystr" where
  "answer_prompt question =
     ustr ''You are a knowledgeable expert. Answer the following question concisely and accurately.'' @
     ustr ''\<newline>\<newline>Question: '' @ question @
     ustr ''\<newline>\<newline>Provide a clear, well-structured answer. Be informative but concise. '' @
     ustr ''Use examples if they help clarify the concept.\<newline>\<newline>Answer:''"

definition answer_request :: "agent \<Rightarrow> pystr \<Rightarrow> request" where
  "answer_request self prompt =
     \<lparr>req_model = model self,
      messages =
        [\<lparr>role = ustr ''system'',
          content =
            ustr ''You are a knowledgeable expert who provides clear and accurate answers.''\<rparr>,
         \<lparr>role = ustr ''user'', content = prompt\<rparr>],
      temperature = binary64 (5 / 10),
      max_tokens = 500\<rparr>"

definition generate_answer ::
  "service \<Rightarrow> pystr \<Rightarrow> agent \<times> request list \<Rightarrow> (exn + pystr) \<times> request list" where
  "generate_answer svc question st =
     (let (self, trace) = st;
          req = answer_request self (answer_prompt question)
      in case first_content (svc (api_key self) trace req) of
           Inl m \<Rightarrow> (Inl (RuntimeError (ustr ''Failed to generate answer: '' @ m)), trace @ [req])
         | Inr answer \<Rightarrow> (Inr answer, trace @ [req]))"

subsection \<open>run_qa_session\<close>

record qa_pair =
  pair_id :: int
  question :: pystr
  answer :: pystr

text \<open>
  The state of the loop: the two agents, the list \<open>pairs\<close> and the log of calls.
  One iteration either completes, or raises; the \<open>except\<close> clause of the loop re-raises
  the exception as it is, so an iteration that raises ends the loop. The state at the
  moment of the raise is kept beside the exception: the caller of \<open>run_qa_session\<close>
  does not see it, but the history and the log at that moment are what some of the
  properties below speak about.
\<close>

record session =
  question_agent :: QuestionAgent
  answer_agent :: agent
  pairs :: "qa_pair list"
  calls :: "request list"

definition iteration_body ::
  "service \<Rightarrow> pystr \<Rightarrow> int \<Rightarrow> int \<Rightarrow> session \<Rightarrow> (exn \<times> session) + session" where
  "iteration_body svc subject num_pairs i s =
     (case generate_question svc subject i num_pairs (question_agent s, calls s) of
        (Inl e, qa, trace) \<Rightarrow> Inl (e, s\<lparr>question_agent := qa, calls := trace\<rparr>)
      | (Inr q, qa, trace) \<Rightarrow>
          (case generate_answer svc q (answer_agent s, trace) of
             (Inl e, trace') \<Rightarrow> Inl (e, s\<lparr>question_agent := qa, calls := trace'\<rparr>)
           | (Inr a, trace') \<Rightarrow>
               Inr (s\<lparr>question_agent := qa, calls := trace',
                      pairs := pairs s @ [\<lparr>pair_id = i + 1, question = q, answer = a\<rparr>]\<rparr>)))"

fun qa_loop ::
  "service \<Rightarrow> pystr \<Rightarrow> int \<Rightarrow> int list \<Rightarrow> session \<Rightarrow> (exn \<times> session) + session" where
  "qa_loop svc subject num_pairs [] s = Inr s"
| "qa_loop svc subject num_pairs (i # is) s =
     (case iteration_body svc subject num_pairs i s of
        Inl err \<Rightarrow> Inl err
      | Inr s' \<Rightarrow> qa_loop svc subject num_pairs is s')"

definition session_init :: "pystr \<Rightarrow> request list \<Rightarrow> session" where
  "session_init key trace =
     \<lparr>question_agent = QuestionAgent_init key, answer_agent = AnswerAgent_init key,
      pairs = [], calls = trace\<rparr>"

text \<open>
  The body of \<open>run_qa_session\<close> up to its \<open>return\<close>: the two agents are created,
  \<open>pairs\<close> is empty, and the loop runs over \<open>range(num_pairs)\<close>, which is
  \<open>[0..num_pairs - 1]\<close>, empty when \<open>num_pairs \<le> 0\<close>.
\<close>

definition run_loop :: "service \<Rightarrow> pystr \<Rightarrow> int \<Rightarrow> pystr \<Rightarrow> request list \<Rightarrow> (exn \<times> session) + session" where
  "run_loop svc subject num_pairs key trace =
     qa_loop svc subject num_pairs [0..num_pairs - 1] (session_init key trace)"

text \<open>
  What the caller of \<open>run_qa_session\<close> gets: the list of pairs or the exception, and
  the log of calls made.
\<close>

definition run_qa_session ::
  "service \<Rightarrow> pystr \<Rightarrow> int \<Rightarrow> pystr \<Rightarrow> request list \<Rightarrow> (exn + qa_pair list) \<times> request list" where
  "run_qa_session svc subject num_pairs key trace =
     (case run_loop svc subject num_pairs key trace of
        Inl (e, s) \<Rightarrow> (Inl e, calls s)
      | Inr s \<Rightarrow> (Inr (pairs s), calls s))"

section \<open>schemas.py\<close>

text \<open>
  The body of a request, as far as the checks of \<open>SessionRequest\<close> can tell requests
  apart: each field is absent or holds a value of the declared type.
\<close>

record raw_request =
  raw_subject :: "pystr option"
  raw_num_pairs :: "int option"

record SessionRequest =
  req_subject :: pystr
  req_num_pairs :: int

record SessionResponse =
  resp_subject :: pystr
  resp_num_pairs :: int
  resp_pairs :: "qa_pair list"

text \<open>The field validator of \<open>subject\<close>; \<open>Inl\<close> is the message of the \<open>ValueError\<close>.\<close>

definition subject_not_empty :: "pystr \<Rightarrow> pystr + pystr" where
  "subject_not_empty v =
     (if strip v = [] then Inl (ustr ''Subject cannot be empty or whitespace only'')
      else Inr (strip v))"

text \<open>
  \<open>Field(..., min_length=1)\<close> followed by the validator, which runs after the
  constraint and only when it holds.
\<close>

definition validate_subject :: "pystr option \<Rightarrow> validation_error list + pystr" where
  "validate_subject f =
     (case f of
        None \<Rightarrow> Inl [Missing (ustr ''subject'')]
      | Some v \<Rightarrow>
          if length v < 1 then Inl [StringTooShort (ustr ''subject'') 1]
          else (case subject_not_empty v of
                  Inl m \<Rightarrow> Inl [ValueError (ustr ''subject'') m]
                | Inr v' \<Rightarrow> Inr v'))"

text \<open>\<open>Field(default=10, ge=1, le=50)\<close>.\<close>

definition validate_num_pairs :: "int option \<Rightarrow> validation_error list + int" where
  "validate_num_pairs f =
     (case f of
        None \<Rightarrow> Inr 10
      | Some n \<Rightarrow>
          if \<not> 1 \<le> n then Inl [GreaterThanEqual (ustr ''num_pairs'') 1]
          else if \<not> n \<le> 50 then Inl [LessThanEqual (ustr ''num_pairs'') 50]
          else Inr n)"

text \<open>Every field is checked; the errors of all fields are reported together.\<close>

definition SessionRequest_validate :: "raw_request \<Rightarrow> validation_error list + SessionRequest" where
  "SessionRequest_validate raw =
     (case (validate_subject (raw_subject raw), validate_num_pairs (raw_num_pairs raw)) of
        (Inr s, Inr n) \<Rightarrow> Inr \<lparr>req_subject = s, req_num_pairs = n\<rparr>
      | (Inl es, Inr n) \<Rightarrow> Inl es
      | (Inr s, Inl es) \<Rightarrow> Inl es
      | (Inl es, Inl es') \<Rightarrow> Inl (es @ es'))"

text \<open>\<open>QAPair(**pair)\<close>: the field \<open>id\<close> has \<open>ge=1\<close>.\<close>

definition QAPair :: "qa_pair \<Rightarrow> exn + qa_pair" where
  "QAPair p =
     (if 1 \<le> pair_id p then Inr p
      else Inl (ValidationError [GreaterThanEqual (ustr ''id'') 1]))"

section \<open>main.py\<close>

text \<open>
  What \<open>run_session\<close> reads from its surroundings: the environment variable, the
  formatted time, Python's \<open>str.isalnum\<close> on one character, whether opening and
  writing a file raises (with the text of the error), and pydantic's rendering of a
  validation error.
\<close>

record env =
  getenv_OPENAI_API_KEY :: "pystr option"
  now_strftime :: pystr
  isalnum :: "codepoint \<Rightarrow> bool"
  write_raises :: "pystr \<Rightarrow> pystr option"
  str_validation_error :: "validation_error list \<Rightarrow> pystr"

text \<open>What it leaves behind: the calls to the completion service and the files written.\<close>

record world =
  api_calls :: "request list"
  files :: "(pystr \<times> SessionResponse) list"

datatype http_result =
    Returned SessionResponse
  | HTTPException int pystr
  | RequestValidationError "validation_error list"

definition str_exn :: "env \<Rightarrow> exn \<Rightarrow> pystr" where
  "str_exn ev e =
     (case e of
        RuntimeError m \<Rightarrow> m
      | OverflowError m \<Rightarrow> m
      | ZeroDivisionError m \<Rightarrow> m
      | ValidationError es \<Rightarrow> str_validation_error ev es
      | OSError m \<Rightarrow> m)"

text \<open>The two \<open>except\<close> clauses of \<open>run_session\<close>.\<close>

definition handle_exception :: "env \<Rightarrow> exn \<Rightarrow> http_result" where
  "handle_exception ev e =
     (case e of
        RuntimeError m \<Rightarrow> HTTPException 500 m
      | _ \<Rightarrow> HTTPException 500 (ustr ''An unexpected error occurred: '' @ str_exn ev e))"

text \<open>The list comprehension \<open>[QAPair(**pair) for pair in pairs_data]\<close>.\<close>

fun QAPairs :: "qa_pair list \<Rightarrow> exn + qa_pair list" where
  "QAPairs [] = Inr []"
| "QAPairs (p # ps) =
     (case QAPair p of
        Inl e \<Rightarrow> Inl e
      | Inr p' \<Rightarrow> (case QAPairs ps of Inl e \<Rightarrow> Inl e | Inr ps' \<Rightarrow> Inr (p' # ps')))"

definition safe_subject :: "env \<Rightarrow> pystr \<Rightarrow> pystr" where
  "safe_subject ev s = map (\<lambda>c. if isalnum ev c then c else 95) s"

definition session_filepath :: "env \<Rightarrow> pystr \<Rightarrow> pystr" where
  "session_filepath ev s =
     ustr ''qa_sessions/'' @ ustr ''qa_session_'' @ safe_subject ev s @ ustr ''_'' @
     now_strftime ev @ ustr ''.json''"

definition run_session ::
  "service \<Rightarrow> env \<Rightarrow> SessionRequest \<Rightarrow> world \<Rightarrow> http_result \<times> world" where
  "run_session svc ev request w =
     (case getenv_OPENAI_API_KEY ev of
        None \<Rightarrow>
          (HTTPException 500
             (ustr ''OPENAI_API_KEY not configured. Please set it in .env file''), w)
      | Some key \<Rightarrow>
          if key = []
          then (HTTPException 500
                  (ustr ''OPENAI_API_KEY not configured. Please set it in .env file''), w)
          else
            (case run_qa_session svc (req_subject request) (req_num_pairs request) key
                    (api_calls w) of
               (Inl e, trace) \<Rightarrow> (handle_exception ev e, w\<lparr>api_calls := trace\<rparr>)
             | (Inr pairs_data, trace) \<Rightarrow>
                 (case QAPairs pairs_data of
                    Inl e \<Rightarrow> (handle_exception ev e, w\<lparr>api_calls := trace\<rparr>)
                  | Inr ps \<Rightarrow>
                      (let response =
                             \<lparr>resp_subject = req_subject request,
                              resp_num_pairs = int (length ps), resp_pairs = ps\<rparr>;
                           filepath = session_filepath ev (req_subject request)
                       in case write_raises ev filepath of
                            Some m \<Rightarrow>
                              (handle_exception ev (OSError m), w\<lparr>api_calls := trace\<rparr>)
                          | None \<Rightarrow>
                              (Returned response,
                               w\<lparr>api_calls := trace,
                                  files := files w @ [(filepath, response)]\<rparr>)))))"

text \<open>
  The route \<open>POST /run-session\<close>: the framework builds the \<open>SessionRequest\<close> from the
  body and calls \<open>run_session\<close> only when that succeeds; otherwise it answers with
  the validation errors (status 422) itself.
\<close>

definition post_run_session ::
  "service \<Rightarrow> env \<Rightarrow> raw_request \<Rightarrow> world \<Rightarrow> http_result \<times> world" where
  "post_run_session svc ev raw w =
     (case SessionRequest_validate raw of
        Inl es \<Rightarrow> (RequestValidationError es, w)
      | Inr request \<Rightarrow> run_session svc ev request w)"

section \<open>Notions used to state the properties\<close>

text \<open>
  The difficulty as the specification words it, with exact arithmetic:
  \<open>progress = iteration_index / max(total_iterations - 1, 1)\<close>, easy below 0.33,
  medium below 0.66, hard otherwise.
\<close>

definition spec_progress :: "int \<Rightarrow> int \<Rightarrow> rat" where
  "spec_progress i n = of_int i / of_int (max (n - 1) 1)"

definition spec_difficulty :: "int \<Rightarrow> int \<Rightarrow> pystr" where
  "spec_difficulty i n =
     (if spec_progress i n < 33 / 100 then ustr ''easy''
      else if spec_progress i n < 66 / 100 then ustr ''medium''
      else ustr ''hard'')"

text \<open>
  The position of a difficulty in the list \<open>difficulty_levels\<close> of the agent
  (\<open>list.index\<close>; the length of the list when it does not occur).
\<close>

fun index_of :: "'a list \<Rightarrow> 'a \<Rightarrow> nat" where
  "index_of [] x = 0"
| "index_of (y # ys) x = (if x = y then 0 else Suc (index_of ys x))"

definition level_index :: "pystr \<Rightarrow> nat" where
  "level_index d = index_of (difficulty_levels (QuestionAgent_init [])) d"

text \<open>A service that answers every request with a text in its first choice.\<close>

definition reliable :: "service \<Rightarrow> bool" where
  "reliable svc \<longleftrightarrow> (\<forall>key trace req. \<exists>c cs. svc key trace req = ApiResponse (Some c # cs))"

text \<open>
  The two configurations of a call, each with the system message of its role, and a
  log in which they alternate, starting with a question.
\<close>

definition question_call :: "request \<Rightarrow> bool" where
  "question_call r \<longleftrightarrow>
     temperature r = binary64 (7 / 10) \<and> max_tokens r = 200 \<and>
     map content (take 1 (messages r)) =
       [ustr ''You are a helpful assistant that generates educational questions.'']"

definition answer_call :: "request \<Rightarrow> bool" where
  "answer_call r \<longleftrightarrow>
     temperature r = binary64 (5 / 10) \<and> max_tokens r = 500 \<and>
     map content (take 1 (messages r)) =
       [ustr ''You are a knowledgeable expert who provides clear and accurate answers.'']"

fun alternating :: "request list \<Rightarrow> bool" where
  "alternating [] \<longleftrightarrow> True"
| "alternating [q] \<longleftrightarrow> question_call q"
| "alternating (q # a # rs) \<longleftrightarrow> question_call q \<and> answer_call a \<and> alternating rs"

section \<open>Facts about the model\<close>

subsection \<open>Rounding to the nearest double\<close>

lemma round_half_even_of_int: "round_half_even (of_int n) = n"
  by (simp add: round_half_even_def)

lemma round_half_even_cases:
  "round_half_even x = \<lfloor>x\<rfloor> \<or> round_half_even x = \<lfloor>x\<rfloor> + 1"
  by (simp add: round_half_even_def Let_def)

lemma round_half_even_mono:
  assumes "x \<le> y" shows "round_half_even x \<le> round_half_even y"
proof (cases "\<lfloor>x\<rfloor> = \<lfloor>y\<rfloor>")
  case True
  then show ?thesis using assms
    by (auto simp add: round_half_even_def Let_def)
next
  case False
  with assms have "\<lfloor>x\<rfloor> < \<lfloor>y\<rfloor>" by (simp add: floor_mono order.strict_iff_order)
  moreover have "round_half_even x \<le> \<lfloor>x\<rfloor> + 1" using round_half_even_cases[of x] by auto
  moreover have "\<lfloor>y\<rfloor> \<le> round_half_even y" using round_half_even_cases[of y] by auto
  ultimately show ?thesis by linarith
qed

lemma bitlen_powi_bounds:
  assumes "0 < p"
  shows "(2::rat) powi (bitlen p - 1) \<le> of_int p" and "of_int p < (2::rat) powi bitlen p"
proof -
  from bitlen_bounds[OF assms] have a: "2 ^ nat (bitlen p - 1) \<le> p" and b: "p < 2 ^ nat (bitlen p)"
    by auto
  have b1: "1 \<le> bitlen p" using assms bitlen_eq_zero_iff[of p] bitlen_nonneg[of p] by linarith
  from a have "(of_int (2 ^ nat (bitlen p - 1)) :: rat) \<le> of_int p" by (simp only: of_int_le_iff)
  then show "(2::rat) powi (bitlen p - 1) \<le> of_int p" using b1 by (simp add: power_int_def)
  from b have "(of_int p :: rat) < of_int (2 ^ nat (bitlen p))" by (simp only: of_int_less_iff)
  then show "of_int p < (2::rat) powi bitlen p" using b1 by (simp add: power_int_def)
qed

lemma ilog2_bounds:
  assumes "0 < x"
  shows "2 powi ilog2 x \<le> x" and "x < 2 powi (ilog2 x + 1)"
proof -
  obtain p q where pq: "quotient_of x = (p, q)" by (cases "quotient_of x")
  then have q: "0 < q" and x: "x = of_int p / of_int q"
    using quotient_of_denom_pos quotient_of_div by blast+
  from assms x q have p: "0 < p"
    by (simp add: zero_less_divide_iff)
  define k where "k = bitlen p - bitlen q"
  note bp = bitlen_powi_bounds[OF p] and bq = bitlen_powi_bounds[OF q]
  have il: "ilog2 x = (if 2 powi k \<le> x then k else k - 1)"
    by (simp add: ilog2_def pq k_def)
  have lo: "(2::rat) powi (k - 1) \<le> x"
  proof -
    have "(2::rat) powi (k - 1) * of_int q \<le> 2 powi (k - 1) * 2 powi bitlen q"
      using bq(2) by (simp add: mult_left_mono)
    also have "\<dots> = 2 powi (bitlen p - 1)" by (simp add: k_def flip: power_int_add)
    also have "\<dots> \<le> of_int p" by (rule bp(1))
    finally show ?thesis using q by (simp add: x pos_le_divide_eq)
  qed
  have hi: "x < (2::rat) powi (k + 1)"
  proof -
    have "of_int p < (2::rat) powi bitlen p" by (rule bp(2))
    also have "\<dots> = 2 powi (k + 1) * 2 powi (bitlen q - 1)" by (simp add: k_def flip: power_int_add)
    also have "\<dots> \<le> 2 powi (k + 1) * of_int q" using bq(1) by (simp add: mult_left_mono)
    finally show ?thesis using q by (simp add: x pos_divide_less_eq)
  qed
  show "2 powi ilog2 x \<le> x" using lo by (simp add: il)
  show "x < 2 powi (ilog2 x + 1)" using hi by (auto simp add: il not_le)
qed

lemma ilog2_mono:
  assumes "0 < x" "x \<le> y" shows "ilog2 x \<le> ilog2 y"
proof (rule ccontr)
  assume "\<not> ilog2 x \<le> ilog2 y"
  then have "ilog2 y + 1 \<le> ilog2 x" by simp
  then have "(2::rat) powi (ilog2 y + 1) \<le> 2 powi ilog2 x"
    by (rule power_int_increasing) simp
  also have "\<dots> \<le> x" using assms(1) by (rule ilog2_bounds)
  also have "\<dots> \<le> y" by fact
  also have "\<dots> < 2 powi (ilog2 y + 1)" using assms by (intro ilog2_bounds) simp
  finally show False by simp
qed

lemma ulp_scale_53: "(2::rat) powi (e + 1) = of_int (2 ^ 53) * 2 powi (e - 52)"
proof -
  have "e + 1 = 53 + (e - 52)" by simp
  then have "(2::rat) powi (e + 1) = 2 powi (53 + (e - 52))" by (rule arg_cong)
  also have "\<dots> = 2 powi 53 * 2 powi (e - 52)" by (rule power_int_add) simp
  also have "(2::rat) powi 53 = of_int (2 ^ 53)" by simp
  finally show ?thesis .
qed

lemma ulp_scale_52: "(2::rat) powi e = of_int (2 ^ 52) * 2 powi (e - 52)"
proof -
  have "e = 52 + (e - 52)" by simp
  then have "(2::rat) powi e = 2 powi (52 + (e - 52))" by (rule arg_cong)
  also have "\<dots> = 2 powi 52 * 2 powi (e - 52)" by (rule power_int_add) simp
  also have "(2::rat) powi 52 = of_int (2 ^ 52)" by simp
  finally show ?thesis .
qed

lemma binary64_pos_alt:
  "binary64_pos x = of_int (round_half_even (x / 2 powi (ulp_exp x - 52))) * 2 powi (ulp_exp x - 52)"
  by (simp add: binary64_pos_def Let_def)

lemma binary64_pos_upper:
  assumes "0 < x" shows "binary64_pos x \<le> 2 powi (ulp_exp x + 1)"
proof -
  let ?u = "(2::rat) powi (ulp_exp x - 52)"
  have u: "0 < ?u" by (simp add: zero_less_power_int)
  have "x < 2 powi (ilog2 x + 1)" using assms by (rule ilog2_bounds)
  also have "\<dots> \<le> 2 powi (ulp_exp x + 1)"
    by (rule power_int_increasing) (simp_all add: ulp_exp_def)
  also have "\<dots> = of_int (2 ^ 53) * ?u" by (rule ulp_scale_53)
  finally have "x / ?u \<le> of_int (2 ^ 53)" using u by (simp only: pos_divide_le_eq less_imp_le)
  then have "round_half_even (x / ?u) \<le> round_half_even (of_int (2 ^ 53))"
    by (rule round_half_even_mono)
  then have "round_half_even (x / ?u) \<le> 2 ^ 53" by (simp only: round_half_even_of_int)
  then have "(of_int (round_half_even (x / ?u)) :: rat) \<le> of_int (2 ^ 53)"
    by (simp only: of_int_le_iff)
  then have "of_int (round_half_even (x / ?u)) * ?u \<le> of_int (2 ^ 53) * ?u"
    using u by (simp only: mult_le_cancel_right_pos)
  also have "\<dots> = 2 powi (ulp_exp x + 1)" by (rule ulp_scale_53[symmetric])
  finally show ?thesis by (simp only: binary64_pos_alt)
qed

lemma binary64_pos_lower:
  assumes "0 < x" "- 1022 \<le> ilog2 x" shows "2 powi ulp_exp x \<le> binary64_pos x"
proof -
  let ?u = "(2::rat) powi (ulp_exp x - 52)"
  have u: "0 < ?u" by (simp add: zero_less_power_int)
  have e: "ulp_exp x = ilog2 x" using assms(2) by (simp add: ulp_exp_def)
  have "of_int (2 ^ 52) * ?u = 2 powi ulp_exp x" by (rule ulp_scale_52[symmetric])
  also have "\<dots> \<le> x" unfolding e using assms(1) by (rule ilog2_bounds)
  finally have "of_int (2 ^ 52) \<le> x / ?u" using u by (simp only: pos_le_divide_eq)
  then have "round_half_even (of_int (2 ^ 52)) \<le> round_half_even (x / ?u)"
    by (rule round_half_even_mono)
  then have "2 ^ 52 \<le> round_half_even (x / ?u)" by (simp only: round_half_even_of_int)
  then have "(of_int (2 ^ 52) :: rat) \<le> of_int (round_half_even (x / ?u))"
    by (simp only: of_int_le_iff)
  then have "of_int (2 ^ 52) * ?u \<le> of_int (round_half_even (x / ?u)) * ?u"
    using u by (simp only: mult_le_cancel_right_pos)
  moreover have "of_int (2 ^ 52) * ?u = 2 powi ulp_exp x" by (rule ulp_scale_52[symmetric])
  ultimately show ?thesis by (simp only: binary64_pos_alt)
qed

lemma binary64_pos_nonneg:
  assumes "0 < x" shows "0 \<le> binary64_pos x"
proof -
  let ?u = "(2::rat) powi (ulp_exp x - 52)"
  have u: "0 < ?u" by (simp add: zero_less_power_int)
  have "of_int 0 \<le> x / ?u" using assms u by simp
  then have "round_half_even (of_int 0) \<le> round_half_even (x / ?u)"
    by (rule round_half_even_mono)
  then have "0 \<le> round_half_even (x / ?u)" by (simp only: round_half_even_of_int)
  then show ?thesis using u by (simp add: binary64_pos_alt)
qed

lemma binary64_pos_mono:
  assumes "0 < x" "x \<le> y" shows "binary64_pos x \<le> binary64_pos y"
proof -
  have y: "0 < y" using assms by simp
  have le: "ulp_exp x \<le> ulp_exp y"
    using ilog2_mono[OF assms] by (simp add: ulp_exp_def)
  show ?thesis
  proof (cases "ulp_exp x = ulp_exp y")
    case True
    let ?u = "(2::rat) powi (ulp_exp y - 52)"
    have u: "0 < ?u" by (simp add: zero_less_power_int)
    have "x / ?u \<le> y / ?u" using assms(2) u by (simp add: divide_right_mono)
    then have "round_half_even (x / ?u) \<le> round_half_even (y / ?u)"
      by (rule round_half_even_mono)
    then have "(of_int (round_half_even (x / ?u)) :: rat) \<le> of_int (round_half_even (y / ?u))"
      by (simp only: of_int_le_iff)
    then have "of_int (round_half_even (x / ?u)) * ?u \<le> of_int (round_half_even (y / ?u)) * ?u"
      using u by (simp only: mult_le_cancel_right_pos)
    then show ?thesis by (simp only: binary64_pos_alt True)
  next
    case False
    with le have lt: "ulp_exp x + 1 \<le> ulp_exp y" by simp
    then have "- 1022 \<le> ilog2 y" by (simp add: ulp_exp_def max_def split: if_splits)
    then have "2 powi ulp_exp y \<le> binary64_pos y" using y by (intro binary64_pos_lower)
    moreover have "binary64_pos x \<le> 2 powi (ulp_exp x + 1)"
      using assms(1) by (rule binary64_pos_upper)
    moreover have "(2::rat) powi (ulp_exp x + 1) \<le> 2 powi ulp_exp y"
      using lt by (rule power_int_increasing) simp
    ultimately show ?thesis by linarith
  qed
qed

lemma binary64_mono:
  assumes "0 \<le> x" "x \<le> y" shows "binary64 x \<le> binary64 y"
proof (cases "x = 0")
  case True
  then show ?thesis using assms binary64_pos_nonneg[of y] by (auto simp add: binary64_def)
next
  case False
  with assms have "0 < x" "0 < y" by simp_all
  then show ?thesis using binary64_pos_mono[OF _ assms(2)] by (simp add: binary64_def)
qed

lemma binary64_one: "binary64 1 = 1"
  by code_simp

lemma binary64_zero: "binary64 0 = 0"
  by (simp add: binary64_def)

lemma binary64_unit:
  assumes "0 \<le> x" "x \<le> 1" shows "0 \<le> binary64 x" and "binary64 x \<le> 1"
  using binary64_mono[of 0 x] binary64_mono[of x 1] assms
  by (simp_all add: binary64_one binary64_zero)

lemma c33: "binary64 (33 / 100) = 5944751508129055 / 18014398509481984" by code_simp
lemma c66: "binary64 (66 / 100) = 5944751508129055 / 9007199254740992" by code_simp
lemma c07: "binary64 (7 / 10) = 3152519739159347 / 4503599627370496" by code_simp
lemma c05: "binary64 (5 / 10) = 1 / 2" by code_simp

subsection \<open>The difficulty inside a session\<close>

lemma progress_in_range:
  assumes "0 \<le> i" "i < N"
  shows "progress i N = Inr (binary64 (of_int i / of_int (max (N - 1) 1)))"
    and "0 \<le> binary64 (of_int i / of_int (max (N - 1) 1))"
    and "binary64 (of_int i / of_int (max (N - 1) 1)) \<le> 1"
proof -
  let ?d = "max (N - 1) 1"
  let ?x = "(of_int i / of_int ?d) :: rat"
  have d: "0 < ?d" "i \<le> ?d" using assms by simp_all
  then have x: "0 \<le> ?x" "?x \<le> 1" using assms(1)
    by (simp_all add: divide_le_eq_1)
  from binary64_unit[OF x] show b: "0 \<le> binary64 ?x" "binary64 ?x \<le> 1" by simp_all
  have "\<bar>binary64 ?x\<bar> \<le> 1" using b by simp
  also have "(1::rat) < 2 ^ 1024" by simp
  finally have "\<not> 2 ^ 1024 \<le> \<bar>binary64 ?x\<bar>" by simp
  then show "progress i N = Inr (binary64 ?x)"
    using d by (simp add: progress_def truediv_def Let_def)
qed

subsection \<open>One generation, one iteration\<close>

lemma difficulty_in_range:
  assumes "0 \<le> i" "i < N"
  shows "\<exists>d. difficulty i N = Inr d"
  using progress_in_range(1)[OF assms] by (simp add: difficulty_def)

lemma generate_question_unfold:
  assumes "difficulty i N = Inr d"
  shows "generate_question svc subject i N (self, tr) =
     (case first_content (svc (api_key self) tr
             (question_request self (question_prompt d subject (history_context (question_history self))))) of
        Inl m \<Rightarrow>
          (Inl (RuntimeError (ustr ''Failed to generate question: '' @ m)), self,
           tr @ [question_request self (question_prompt d subject (history_context (question_history self)))])
      | Inr q \<Rightarrow>
          (Inr q, self\<lparr>question_history := question_history self @ [q]\<rparr>,
           tr @ [question_request self (question_prompt d subject (history_context (question_history self)))]))"
  using assms by (simp add: generate_question_def Let_def)

lemma question_request_call: "question_call (question_request self p)"
  by (simp add: question_call_def question_request_def)

lemma answer_request_call: "answer_call (answer_request self p)"
  by (simp add: answer_call_def answer_request_def)

lemma generate_question_ok:
  assumes "0 \<le> i" "i < N" "generate_question svc subject i N (self, tr) = (Inr q, self', tr')"
  shows "\<exists>r. tr' = tr @ [r] \<and> question_call r \<and>
             self' = self\<lparr>question_history := question_history self @ [q]\<rparr> \<and>
             first_content (svc (api_key self) tr r) = Inr q"
proof -
  from difficulty_in_range[OF assms(1,2)] obtain d where d: "difficulty i N = Inr d" ..
  show ?thesis
    using assms(3) unfolding generate_question_unfold[OF d]
    by (auto split: sum.splits simp add: question_request_call)
qed

lemma generate_question_err:
  assumes "0 \<le> i" "i < N" "generate_question svc subject i N (self, tr) = (Inl e, self', tr')"
  shows "\<exists>r m. tr' = tr @ [r] \<and> question_call r \<and> self' = self \<and>
             first_content (svc (api_key self) tr r) = Inl m \<and>
             e = RuntimeError (ustr ''Failed to generate question: '' @ m)"
proof -
  from difficulty_in_range[OF assms(1,2)] obtain d where d: "difficulty i N = Inr d" ..
  show ?thesis
    using assms(3) unfolding generate_question_unfold[OF d]
    by (auto split: sum.splits simp add: question_request_call)
qed

lemma generate_answer_ok:
  assumes "generate_answer svc q (self, tr) = (Inr a, tr')"
  shows "\<exists>r. tr' = tr @ [r] \<and> answer_call r \<and> first_content (svc (api_key self) tr r) = Inr a"
  using assms
  by (auto simp add: generate_answer_def Let_def answer_request_call split: sum.splits)

lemma generate_answer_err:
  assumes "generate_answer svc q (self, tr) = (Inl e, tr')"
  shows "\<exists>r m. tr' = tr @ [r] \<and> answer_call r \<and> first_content (svc (api_key self) tr r) = Inl m \<and>
           e = RuntimeError (ustr ''Failed to generate answer: '' @ m)"
  using assms
  by (auto simp add: generate_answer_def Let_def answer_request_call split: sum.splits)

lemma iteration_body_ok:
  assumes "0 \<le> i" "i < N" "iteration_body svc subject N i s = Inr s'"
  shows "\<exists>q a r1 r2.
           generate_question svc subject i N (question_agent s, calls s) =
             (Inr q, question_agent s', calls s @ [r1]) \<and>
           generate_answer svc q (answer_agent s, calls s @ [r1]) = (Inr a, calls s') \<and>
           pairs s' = pairs s @ [\<lparr>pair_id = i + 1, question = q, answer = a\<rparr>] \<and>
           question_history (question_agent s') = question_history (question_agent s) @ [q] \<and>
           calls s' = calls s @ [r1, r2] \<and> question_call r1 \<and> answer_call r2 \<and>
           answer_agent s' = answer_agent s"
proof -
  obtain rq qa tr where gq: "generate_question svc subject i N (question_agent s, calls s) = (rq, qa, tr)"
    by (rule prod_cases3)
  show ?thesis
  proof (cases rq)
    case (Inl e)
    with gq assms(3) show ?thesis by (simp add: iteration_body_def)
  next
    case (Inr q)
    note q = this
    from generate_question_ok[OF assms(1,2) gq[unfolded q]] obtain r1 where
      r1: "tr = calls s @ [r1]" "question_call r1"
        "qa = (question_agent s)\<lparr>question_history := question_history (question_agent s) @ [q]\<rparr>"
      by blast
    obtain ra tr' where ga: "generate_answer svc q (answer_agent s, tr) = (ra, tr')"
      by (rule prod.exhaust)
    show ?thesis
    proof (cases ra)
      case (Inl e)
      with gq q ga assms(3) show ?thesis by (simp add: iteration_body_def)
    next
      case (Inr a)
      note a = this
      from generate_answer_ok[OF ga[unfolded a]] obtain r2 where
        r2: "tr' = tr @ [r2]" "answer_call r2" by blast
      from gq q ga a assms(3) have s': "s' = s\<lparr>question_agent := qa, calls := tr',
             pairs := pairs s @ [\<lparr>pair_id = i + 1, question = q, answer = a\<rparr>]\<rparr>"
        by (simp add: iteration_body_def)
      show ?thesis
        using gq q ga a r1 r2 by (simp add: s')
    qed
  qed
qed

lemma iteration_body_err:
  assumes "0 \<le> i" "i < N" "iteration_body svc subject N i s = Inl (e, s')"
  shows "((\<exists>r1. generate_question svc subject i N (question_agent s, calls s) =
                  (Inl e, question_agent s, calls s @ [r1]) \<and>
               calls s' = calls s @ [r1] \<and> question_call r1 \<and>
               question_agent s' = question_agent s) \<or>
         (\<exists>q r1 r2. generate_question svc subject i N (question_agent s, calls s) =
                  (Inr q, question_agent s', calls s @ [r1]) \<and>
               generate_answer svc q (answer_agent s, calls s @ [r1]) = (Inl e, calls s') \<and>
               calls s' = calls s @ [r1, r2] \<and> question_call r1 \<and> answer_call r2 \<and>
               question_history (question_agent s') = question_history (question_agent s) @ [q]))
        \<and> pairs s' = pairs s \<and> (\<exists>m. e = RuntimeError m)"
proof -
  obtain rq qa tr where gq: "generate_question svc subject i N (question_agent s, calls s) = (rq, qa, tr)"
    by (rule prod_cases3)
  show ?thesis
  proof (cases rq)
    case (Inl e0)
    note e0 = this
    from gq e0 assms(3) have s': "e = e0" "s' = s\<lparr>question_agent := qa, calls := tr\<rparr>"
      by (simp_all add: iteration_body_def)
    from generate_question_err[OF assms(1,2) gq[unfolded e0]] obtain r m where
      "tr = calls s @ [r]" "question_call r" "qa = question_agent s"
      "e0 = RuntimeError (ustr ''Failed to generate question: '' @ m)" by blast
    then show ?thesis using gq e0 s' by simp
  next
    case (Inr q)
    note q = this
    from generate_question_ok[OF assms(1,2) gq[unfolded q]] obtain r1 where
      r1: "tr = calls s @ [r1]" "question_call r1"
        "qa = (question_agent s)\<lparr>question_history := question_history (question_agent s) @ [q]\<rparr>"
      by blast
    obtain ra tr' where ga: "generate_answer svc q (answer_agent s, tr) = (ra, tr')"
      by (rule prod.exhaust)
    show ?thesis
    proof (cases ra)
      case (Inr a)
      with gq q ga assms(3) show ?thesis by (simp add: iteration_body_def)
    next
      case (Inl e0)
      note e0 = this
      from generate_answer_err[OF ga[unfolded e0]] obtain r2 m where
        r2: "tr' = tr @ [r2]" "answer_call r2"
          "e0 = RuntimeError (ustr ''Failed to generate answer: '' @ m)" by blast
      from gq q ga e0 assms(3) have s': "e = e0" "s' = s\<lparr>question_agent := qa, calls := tr'\<rparr>"
        by (simp_all add: iteration_body_def)
      show ?thesis
        using gq q ga e0 r1 r2 by (simp add: s')
    qed
  qed
qed

subsection \<open>The loop\<close>

lemma qa_loop_append:
  "qa_loop svc subject N (xs @ ys) s =
     (case qa_loop svc subject N xs s of Inl err \<Rightarrow> Inl err | Inr s' \<Rightarrow> qa_loop svc subject N ys s')"
  by (induction xs arbitrary: s) (simp_all split: sum.splits)

lemma alternating_append:
  "even (length xs) \<Longrightarrow> alternating (xs @ ys) \<longleftrightarrow> alternating xs \<and> alternating ys"
  by (induction xs rule: alternating.induct) simp_all

lemma qa_loop_ok:
  assumes "\<forall>i\<in>set js. 0 \<le> i \<and> i < N" "qa_loop svc subject N js s = Inr s'"
  shows "\<exists>new cs. pairs s' = pairs s @ new \<and> map pair_id new = map (\<lambda>i. i + 1) js \<and>
           question_history (question_agent s') =
             question_history (question_agent s) @ map question new \<and>
           calls s' = calls s @ cs \<and> length cs = 2 * length js \<and> alternating cs"
  using assms
proof (induction js arbitrary: s)
  case Nil
  then show ?case by simp
next
  case (Cons j js)
  from Cons.prems(2) obtain s1 where
    s1: "iteration_body svc subject N j s = Inr s1" and rest: "qa_loop svc subject N js s1 = Inr s'"
    by (auto split: sum.splits)
  from Cons.prems(1) have j: "0 \<le> j" "j < N" and js: "\<forall>i\<in>set js. 0 \<le> i \<and> i < N" by simp_all
  from iteration_body_ok[OF j s1] obtain q a r1 r2 where
    st: "pairs s1 = pairs s @ [\<lparr>pair_id = j + 1, question = q, answer = a\<rparr>]"
      "question_history (question_agent s1) = question_history (question_agent s) @ [q]"
      "calls s1 = calls s @ [r1, r2]" "question_call r1" "answer_call r2"
    by blast
  from Cons.IH[OF js rest] obtain new cs where
    ih: "pairs s' = pairs s1 @ new" "map pair_id new = map (\<lambda>i. i + 1) js"
      "question_history (question_agent s') = question_history (question_agent s1) @ map question new"
      "calls s' = calls s1 @ cs" "length cs = 2 * length js" "alternating cs"
    by blast
  show ?case
    apply (rule exI[of _ "\<lparr>pair_id = j + 1, question = q, answer = a\<rparr> # new"])
    apply (rule exI[of _ "r1 # r2 # cs"])
    using st ih by simp
qed

lemma qa_loop_err:
  assumes "\<forall>i\<in>set js. 0 \<le> i \<and> i < N" "qa_loop svc subject N js s = Inl (e, s')"
  shows "\<exists>cs. calls s' = calls s @ cs \<and> alternating cs \<and> cs \<noteq> [] \<and> (\<exists>m. e = RuntimeError m)"
  using assms
proof (induction js arbitrary: s)
  case Nil
  then show ?case by simp
next
  case (Cons j js)
  from Cons.prems(1) have j: "0 \<le> j" "j < N" and js: "\<forall>i\<in>set js. 0 \<le> i \<and> i < N" by simp_all
  show ?case
  proof (cases "iteration_body svc subject N j s")
    case (Inl err)
    with Cons.prems(2) have err: "iteration_body svc subject N j s = Inl (e, s')" by simp
    from iteration_body_err[OF j err] have
      "(\<exists>r1. calls s' = calls s @ [r1] \<and> question_call r1) \<or>
       (\<exists>r1 r2. calls s' = calls s @ [r1, r2] \<and> question_call r1 \<and> answer_call r2)"
      and m: "\<exists>m. e = RuntimeError m" by blast+
    from this(1) show ?thesis
    proof (rule disjE)
      assume "\<exists>r1. calls s' = calls s @ [r1] \<and> question_call r1"
      then obtain r1 where "calls s' = calls s @ [r1]" "question_call r1" by blast
      then show ?thesis using m by (intro exI[of _ "[r1]"]) simp
    next
      assume "\<exists>r1 r2. calls s' = calls s @ [r1, r2] \<and> question_call r1 \<and> answer_call r2"
      then obtain r1 r2 where "calls s' = calls s @ [r1, r2]" "question_call r1" "answer_call r2"
        by blast
      then show ?thesis using m by (intro exI[of _ "[r1, r2]"]) simp
    qed
  next
    case (Inr s1)
    with Cons.prems(2) have rest: "qa_loop svc subject N js s1 = Inl (e, s')" by simp
    from iteration_body_ok[OF j Inr] obtain r1 r2 where
      st: "calls s1 = calls s @ [r1, r2]" "question_call r1" "answer_call r2" by blast
    from Cons.IH[OF js rest] obtain cs where
      "calls s' = calls s1 @ cs" "alternating cs" "cs \<noteq> []" "\<exists>m. e = RuntimeError m" by blast
    then show ?thesis using st
      by (intro exI[of _ "r1 # r2 # cs"]) simp
  qed
qed

lemma reliable_first_content:
  assumes "reliable svc" shows "\<exists>t. first_content (svc k tr r) = Inr t"
proof -
  from assms obtain c cs where "svc k tr r = ApiResponse (Some c # cs)"
    unfolding reliable_def by blast
  then show ?thesis by (simp add: first_content_def)
qed

lemma iteration_body_reliable:
  assumes "reliable svc" "0 \<le> i" "i < N"
  shows "\<exists>s'. iteration_body svc subject N i s = Inr s'"
proof -
  from difficulty_in_range[OF assms(2,3)] obtain d where d: "difficulty i N = Inr d" ..
  let ?r = "question_request (question_agent s)
              (question_prompt d subject (history_context (question_history (question_agent s))))"
  from reliable_first_content[OF assms(1)] obtain q where
    q: "first_content (svc (api_key (question_agent s)) (calls s) ?r) = Inr q" by blast
  have gq: "generate_question svc subject i N (question_agent s, calls s) =
      (Inr q, (question_agent s)\<lparr>question_history := question_history (question_agent s) @ [q]\<rparr>,
       calls s @ [?r])"
    unfolding generate_question_unfold[OF d] by (simp add: q)
  let ?a = "answer_request (answer_agent s) (answer_prompt q)"
  from reliable_first_content[OF assms(1)] obtain a where
    a: "first_content (svc (api_key (answer_agent s)) (calls s @ [?r]) ?a) = Inr a" by blast
  have ga: "generate_answer svc q (answer_agent s, calls s @ [?r]) = (Inr a, calls s @ [?r] @ [?a])"
    by (simp add: generate_answer_def Let_def a)
  show ?thesis by (simp add: iteration_body_def gq ga)
qed

lemma qa_loop_reliable:
  assumes "reliable svc" "\<forall>i\<in>set js. 0 \<le> i \<and> i < N"
  shows "\<exists>s'. qa_loop svc subject N js s = Inr s'"
  using assms(2)
proof (induction js arbitrary: s)
  case Nil
  then show ?case by simp
next
  case (Cons j js)
  from Cons.prems have j: "0 \<le> j" "j < N" and js: "\<forall>i\<in>set js. 0 \<le> i \<and> i < N" by simp_all
  from iteration_body_reliable[OF assms(1) j] obtain s1 where
    "iteration_body svc subject N j s = Inr s1" ..
  then show ?case using Cons.IH[OF js, of s1] by simp
qed

subsection \<open>The whole session\<close>

lemma range_indices: "\<forall>i\<in>set [0..N - 1]. 0 \<le> i \<and> i < N"
  by simp

lemma map_succ_upto: "map (\<lambda>i. i + 1) [a..b] = [a + 1..b + 1]"
proof (induction a b rule: upto.induct)
  case (1 i j)
  show ?case
  proof (cases "i \<le> j")
    case True
    then have "[i..j] = i # [i + 1..j]" "[i + 1..j + 1] = (i + 1) # [i + 1 + 1..j + 1]"
      by (simp_all add: upto_rec1)
    then show ?thesis using 1[OF True] by simp
  next
    case False
    then show ?thesis by simp
  qed
qed

lemma run_loop_ok:
  assumes "run_loop svc subject N key trace = Inr s"
  shows "map pair_id (pairs s) = [1..N]"
    and "question_history (question_agent s) = map question (pairs s)"
    and "\<exists>cs. calls s = trace @ cs \<and> length cs = 2 * nat N \<and> alternating cs"
proof -
  from qa_loop_ok[OF range_indices assms[unfolded run_loop_def]] obtain new cs where
    n: "pairs s = pairs (session_init key trace) @ new" "map pair_id new = map (\<lambda>i. i + 1) [0..N - 1]"
      "question_history (question_agent s) =
         question_history (question_agent (session_init key trace)) @ map question new"
      "calls s = calls (session_init key trace) @ cs" "length cs = 2 * length [0..N - 1]"
      "alternating cs" by blast
  from n(1,2) show "map pair_id (pairs s) = [1..N]"
    by (simp add: session_init_def map_succ_upto)
  from n(1,3) show "question_history (question_agent s) = map question (pairs s)"
    by (simp add: session_init_def QuestionAgent_init_def)
  from n(4,5,6) show "\<exists>cs. calls s = trace @ cs \<and> length cs = 2 * nat N \<and> alternating cs"
    by (simp add: session_init_def)
qed

lemma run_qa_session_Inr:
  "run_qa_session svc subject N key trace = (Inr ps, tr) \<longleftrightarrow>
     (\<exists>s. run_loop svc subject N key trace = Inr s \<and> ps = pairs s \<and> tr = calls s)"
  by (auto simp add: run_qa_session_def split: sum.splits prod.splits)

lemma run_qa_session_Inl:
  "run_qa_session svc subject N key trace = (Inl e, tr) \<longleftrightarrow>
     (\<exists>s. run_loop svc subject N key trace = Inl (e, s) \<and> tr = calls s)"
  by (auto simp add: run_qa_session_def split: sum.splits prod.splits)

lemma QAPairs_ok:
  assumes "\<forall>p\<in>set ps. 1 \<le> pair_id p" shows "QAPairs ps = Inr ps"
  using assms by (induction ps) (simp_all add: QAPair_def)

lemma ids_from_one:
  assumes "map pair_id ps = [1..N]" shows "\<forall>p\<in>set ps. 1 \<le> pair_id p"
proof
  fix p assume "p \<in> set ps"
  then have "pair_id p \<in> set (map pair_id ps)" by simp
  then show "1 \<le> pair_id p" unfolding assms by simp
qed

section \<open>Properties\<close>

text \<open>
  C1. For every \<open>num_pairs = N\<close> from 1 on (so for every \<open>N\<close> in 1..50) and every
  subject: with a service that answers every request, \<open>run_qa_session\<close> returns a
  list of pairs; whenever it returns one, the list has exactly \<open>N\<close> pairs, their
  \<open>id\<close> values are 1..N in ascending order without gap or duplicate,
  \<open>pairs[i].id = i + 1\<close>, and the response that \<open>run_session\<close> builds has
  \<open>num_pairs = length(pairs)\<close> and the same numbering.
\<close>

theorem session_pairs_numbered:
  assumes "1 \<le> N"
  shows "(reliable svc \<longrightarrow> (\<exists>ps tr. run_qa_session svc subject N key trace = (Inr ps, tr))) \<and>
         (\<forall>ps tr. run_qa_session svc subject N key trace = (Inr ps, tr) \<longrightarrow>
            int (length ps) = N \<and> map pair_id ps = [1..N] \<and>
            (\<forall>i<length ps. pair_id (ps ! i) = int i + 1) \<and>
            distinct (map pair_id ps) \<and> sorted (map pair_id ps)) \<and>
         (\<forall>ev w resp w'.
            run_session svc ev \<lparr>req_subject = subject, req_num_pairs = N\<rparr> w = (Returned resp, w') \<longrightarrow>
            resp_num_pairs resp = int (length (resp_pairs resp)) \<and>
            map pair_id (resp_pairs resp) = [1..N])"
proof (intro conjI allI impI)
  assume "reliable svc"
  from qa_loop_reliable[OF this range_indices] obtain s where
    "run_loop svc subject N key trace = Inr s" unfolding run_loop_def by blast
  then show "\<exists>ps tr. run_qa_session svc subject N key trace = (Inr ps, tr)"
    by (simp add: run_qa_session_def)
next
  fix ps tr assume r: "run_qa_session svc subject N key trace = (Inr ps, tr)"
  then obtain s where s: "run_loop svc subject N key trace = Inr s" "ps = pairs s"
    unfolding run_qa_session_Inr by blast
  from run_loop_ok(1)[OF s(1)] have ids: "map pair_id ps = [1..N]" by (simp add: s(2))
  then have "length ps = length [1..N]" by (metis length_map)
  then have len: "length ps = nat N" by simp
  show "int (length ps) = N" using len assms by simp
  show "map pair_id ps = [1..N]" by (rule ids)
  show "distinct (map pair_id ps)" unfolding ids by simp
  show "sorted (map pair_id ps)" unfolding ids by simp
  fix i assume "i < length ps"
  then have "map pair_id ps ! i = int i + 1" unfolding ids using len by simp
  then show "pair_id (ps ! i) = int i + 1" using \<open>i < length ps\<close> by simp
next
  fix ev w resp w'
  assume rs: "run_session svc ev \<lparr>req_subject = subject, req_num_pairs = N\<rparr> w = (Returned resp, w')"
  then obtain k ps tr where
    k: "run_qa_session svc subject N k (api_calls w) = (Inr ps, tr)"
    and resp: "QAPairs ps = Inr (resp_pairs resp)" "resp_num_pairs resp = int (length (resp_pairs resp))"
    by (auto simp add: run_session_def handle_exception_def Let_def
          split: option.splits if_splits sum.splits prod.splits exn.splits)
  from k obtain s where s: "run_loop svc subject N k (api_calls w) = Inr s" "ps = pairs s"
    unfolding run_qa_session_Inr by blast
  from run_loop_ok(1)[OF s(1)] have ids: "map pair_id ps = [1..N]" by (simp add: s(2))
  from QAPairs_ok[OF ids_from_one[OF ids]] resp(1) have "resp_pairs resp = ps" by simp
  then show "resp_num_pairs resp = int (length (resp_pairs resp))"
    and "map pair_id (resp_pairs resp) = [1..N]" using resp(2) ids by simp_all
qed

theorem session_pairs_numbered_witness:
  "(1::int) \<le> 3 \<and> reliable (\<lambda>k tr r. ApiResponse [Some (ustr ''Q?'')]) \<and>
   (\<exists>ps tr. run_qa_session (\<lambda>k tr r. ApiResponse [Some (ustr ''Q?'')])
               (ustr ''Photosynthesis'') 3 (ustr ''key'') [] = (Inr ps, tr) \<and>
            map pair_id ps = [1, 2, 3])"
proof -
  let ?svc = "\<lambda>(k::pystr) (tr::request list) (r::request). ApiResponse [Some (ustr ''Q?'')]"
  have h: "(1::int) \<le> 3" by simp
  have r: "reliable ?svc" by (simp add: reliable_def)
  note t = session_pairs_numbered[OF h, of ?svc "ustr ''Photosynthesis''" "ustr ''key''" "[]"]
  from t r obtain ps tr where
    run: "run_qa_session ?svc (ustr ''Photosynthesis'') 3 (ustr ''key'') [] = (Inr ps, tr)"
    by blast
  with t have "map pair_id ps = [1..3]" by blast
  also have "[1..3] = [1, 2, (3::int)]" by (simp add: upto_rec1)
  finally have "map pair_id ps = [1, 2, 3]" .
  with run have "\<exists>ps tr. run_qa_session ?svc (ustr ''Photosynthesis'') 3 (ustr ''key'') [] = (Inr ps, tr) \<and> map pair_id ps = [1, 2, 3]"
    by (intro exI[of _ ps] exI[of _ tr] conjI)
  with h r show ?thesis by simp
qed

subsection \<open>Facts about the difficulty\<close>

lemma binary64_half: "binary64 (1 / 2) = 1 / 2" by code_simp
lemma c66n: "binary64 (33 / 50) = 5944751508129055 / 9007199254740992" by code_simp
lemma below33: "binary64 (33 / 100 - 1 / 100000000000000) < binary64 (33 / 100)" by code_simp
lemma below66: "binary64 (66 / 100 - 1 / 100000000000000) < binary64 (66 / 100)" by code_simp

lemma level_index_simps:
  "level_index (ustr ''easy'') = 0" "level_index (ustr ''medium'') = 1"
  "level_index (ustr ''hard'') = 2"
  by (simp_all add: level_index_def QuestionAgent_init_def ustr_def)

lemma difficulty_in_range_eq:
  assumes "0 \<le> i" "i < N"
  shows "difficulty i N =
     Inr (if binary64 (of_int i / of_int (max (N - 1) 1)) < binary64 (33 / 100) then ustr ''easy''
          else if binary64 (of_int i / of_int (max (N - 1) 1)) < binary64 (66 / 100) then ustr ''medium''
          else ustr ''hard'')"
  unfolding difficulty_def progress_in_range(1)[OF assms] by simp

text \<open>A fraction with a small denominator that is below a threshold is well below it.\<close>

lemma fraction_gap:
  fixes i d :: int
  assumes d: "0 < d" "d \<le> 1000000000000" and lt: "(of_int i / of_int d :: rat) < of_int c / 100"
  shows "(of_int i / of_int d :: rat) \<le> of_int c / 100 - 1 / 100000000000000"
proof -
  from lt d(1) have "(of_int (i * 100) :: rat) < of_int (c * d)"
    by (simp add: pos_divide_less_eq mult.commute)
  then have "i * 100 < c * d" by (simp only: of_int_less_iff)
  then have "i * 100 \<le> c * d - 1" by simp
  then have "(of_int (i * 100) :: rat) \<le> of_int (c * d - 1)" by (simp only: of_int_le_iff)
  then have "(of_int i / of_int d :: rat) \<le> of_int (c * d - 1) / (100 * of_int d)"
    using d(1) by (simp add: pos_divide_le_eq pos_le_divide_eq mult.commute)
  also have "\<dots> = of_int c / 100 - 1 / (100 * of_int d)"
    using d(1) by (simp add: field_simps)
  also have "\<dots> \<le> of_int c / 100 - 1 / 100000000000000"
  proof -
    have "(of_int d :: rat) \<le> 1000000000000" using d(2) by (metis of_int_le_iff of_int_numeral)
    then have "(100 * of_int d :: rat) \<le> 100000000000000" by simp
    moreover have "(0::rat) < 100 * of_int d" using d(1) by simp
    ultimately have "(1::rat) / 100000000000000 \<le> 1 / (100 * of_int d)"
      by (intro divide_left_mono) simp_all
    then show ?thesis by simp
  qed
  finally show ?thesis .
qed

lemma threshold_exact:
  fixes i d :: int
  assumes "0 \<le> i" "0 < d" "d \<le> 1000000000000"
  shows "binary64 (of_int i / of_int d) < binary64 (33 / 100) \<longleftrightarrow> (of_int i / of_int d :: rat) < 33 / 100"
    and "binary64 (of_int i / of_int d) < binary64 (66 / 100) \<longleftrightarrow> (of_int i / of_int d :: rat) < 66 / 100"
proof -
  let ?x = "of_int i / of_int d :: rat"
  have x: "0 \<le> ?x" using assms by simp
  show "binary64 ?x < binary64 (33 / 100) \<longleftrightarrow> ?x < 33 / 100"
  proof
    assume "binary64 ?x < binary64 (33 / 100)"
    then show "?x < 33 / 100" using binary64_mono[of "33 / 100" ?x] by (cases "?x < 33 / 100") simp_all
  next
    assume "?x < 33 / 100"
    then have "?x < of_int 33 / 100" by simp
    from fraction_gap[OF assms(2,3) this] have "?x \<le> 33 / 100 - 1 / 100000000000000" by simp
    from binary64_mono[OF x this] below33 show "binary64 ?x < binary64 (33 / 100)" by simp
  qed
  show "binary64 ?x < binary64 (66 / 100) \<longleftrightarrow> ?x < 66 / 100"
  proof
    assume "binary64 ?x < binary64 (66 / 100)"
    then show "?x < 66 / 100" using binary64_mono[of "66 / 100" ?x] by (cases "?x < 66 / 100") simp_all
  next
    assume "?x < 66 / 100"
    then have "?x < of_int 66 / 100" by simp
    from fraction_gap[OF assms(2,3) this] have "?x \<le> 66 / 100 - 1 / 100000000000000" by simp
    from binary64_mono[OF x this] below66 show "binary64 ?x < binary64 (66 / 100)" by simp
  qed
qed

lemma question_sent_with_difficulty:
  assumes "difficulty i N = Inr d"
  shows "snd (snd (generate_question svc subject i N (self, tr))) =
           tr @ [question_request self
                   (question_prompt d subject (history_context (question_history self)))]"
  unfolding generate_question_unfold[OF assms] by (simp split: sum.splits)

text \<open>
  C2. For every total \<open>N \<ge> 1\<close> and every iteration \<open>i\<close> in \<open>0..N-1\<close>, the
  difficulty that \<open>generate_question\<close> uses depends on \<open>(i, N)\<close> only: the
  progress is the quotient \<open>i / max(N - 1, 1)\<close> as a float and never raises; the
  difficulty is "easy" when the progress is below 0.33, "medium" when it is below 0.66
  and "hard" otherwise; up to \<open>N = 10^12\<close> (so for every valid request) the same
  holds with the exact quotient and the exact bounds 33/100 and 66/100; for \<open>N = 1\<close>
  it is "easy"; for \<open>N = 3\<close> the progress is 0, 0.5 and 1.0 and the difficulties are
  "easy", "medium" and "hard"; and the request sent by \<open>generate_question\<close> is built
  with that difficulty, whatever the agent's state and the service.
\<close>

theorem difficulty_progression:
  assumes "1 \<le> N" "0 \<le> i" "i < N"
  shows "progress i N = Inr (binary64 (of_int i / of_int (max (N - 1) 1))) \<and>
         (\<exists>p. progress i N = Inr p \<and>
              difficulty i N =
                Inr (if p < binary64 (33 / 100) then ustr ''easy''
                     else if p < binary64 (66 / 100) then ustr ''medium''
                     else ustr ''hard'')) \<and>
         (N \<le> 1000000000000 \<longrightarrow> difficulty i N = Inr (spec_difficulty i N)) \<and>
         (N = 1 \<longrightarrow> difficulty i N = Inr (ustr ''easy'')) \<and>
         (N = 3 \<longrightarrow>
            (i = 0 \<longrightarrow> progress i N = Inr 0 \<and> difficulty i N = Inr (ustr ''easy'')) \<and>
            (i = 1 \<longrightarrow> progress i N = Inr (1 / 2) \<and> difficulty i N = Inr (ustr ''medium'')) \<and>
            (i = 2 \<longrightarrow> progress i N = Inr 1 \<and> difficulty i N = Inr (ustr ''hard''))) \<and>
         (\<forall>svc subject self tr. \<exists>d. difficulty i N = Inr d \<and>
            snd (snd (generate_question svc subject i N (self, tr))) =
              tr @ [question_request self
                      (question_prompt d subject (history_context (question_history self)))])"
proof -
  let ?x = "of_int i / of_int (max (N - 1) 1) :: rat"
  note p = progress_in_range(1)[OF assms(2,3)]
  note d = difficulty_in_range_eq[OF assms(2,3)]
  have exact: "difficulty i N = Inr (spec_difficulty i N)" if "N \<le> 1000000000000"
  proof -
    have "0 < max (N - 1) 1" "max (N - 1) 1 \<le> 1000000000000" using that by simp_all
    from threshold_exact[OF assms(2) this] show ?thesis
      unfolding d spec_difficulty_def spec_progress_def by simp
  qed
  have one: "difficulty i N = Inr (ustr ''easy'')" if "N = 1"
  proof -
    from that assms have "i = 0" by simp
    then show ?thesis unfolding d by (simp add: that binary64_zero c33)
  qed
  have three0: "progress i N = Inr 0 \<and> difficulty i N = Inr (ustr ''easy'')" if "N = 3" "i = 0"
    unfolding d p using that by (simp add: binary64_zero c33)
  have three1: "progress i N = Inr (1 / 2) \<and> difficulty i N = Inr (ustr ''medium'')"
    if "N = 3" "i = 1"
    unfolding d p using that by (simp add: binary64_half c33 c66n)
  have three2: "progress i N = Inr 1 \<and> difficulty i N = Inr (ustr ''hard'')" if "N = 3" "i = 2"
    unfolding d p using that by (simp add: binary64_one c33 c66n)
  have sent: "\<exists>d. difficulty i N = Inr d \<and>
            snd (snd (generate_question svc subject i N (self, tr))) =
              tr @ [question_request self
                      (question_prompt d subject (history_context (question_history self)))]"
    for svc subject self tr
    using question_sent_with_difficulty[OF d] d by blast
  show ?thesis
    apply (intro conjI)
    subgoal by (rule p)
    subgoal using p d by simp
    subgoal using exact by simp
    subgoal using one by simp
    subgoal using three0 three1 three2 by simp
    subgoal using sent by simp
    done
qed

theorem difficulty_progression_witness:
  "(1::int) \<le> 3 \<and> (0::int) \<le> 1 \<and> (1::int) < 3 \<and>
   progress 1 3 = Inr (1 / 2) \<and> difficulty 1 3 = Inr (ustr ''medium'') \<and>
   difficulty 1 3 = Inr (spec_difficulty 1 3)"
proof -
  have h: "(1::int) \<le> 3" "(0::int) \<le> 1" "(1::int) < 3" by simp_all
  note t = difficulty_progression[OF h]
  from t[THEN conjunct2, THEN conjunct2, THEN conjunct1]
  have a: "difficulty 1 3 = Inr (spec_difficulty 1 3)" by simp
  from t[THEN conjunct2, THEN conjunct2, THEN conjunct2, THEN conjunct2, THEN conjunct1]
  have b: "progress 1 3 = Inr (1 / 2)" "difficulty 1 3 = Inr (ustr ''medium'')" by simp_all
  from h a b show ?thesis by (intro conjI)
qed

text \<open>
  C6. For a fixed total \<open>N\<close>, the difficulty never decreases in the order
  easy, medium, hard of \<open>difficulty_levels\<close> as the iteration index goes from 0 to
  \<open>N - 1\<close>.
\<close>

theorem difficulty_monotone:
  assumes "0 \<le> i" "i \<le> j" "j < N"
  shows "\<exists>a b. difficulty i N = Inr a \<and> difficulty j N = Inr b \<and>
               level_index a \<le> level_index b"
proof -
  let ?d = "of_int (max (N - 1) 1) :: rat"
  have i: "0 \<le> i" "i < N" and j: "0 \<le> j" "j < N" using assms by simp_all
  have "0 < ?d" by simp
  then have "(of_int i / ?d) \<le> of_int j / ?d" "0 \<le> of_int i / ?d"
    using assms by (simp_all add: divide_right_mono)
  from binary64_mono[OF this(2,1)]
  have le: "binary64 (of_int i / ?d) \<le> binary64 (of_int j / ?d)" .
  show ?thesis
    unfolding difficulty_in_range_eq[OF i] difficulty_in_range_eq[OF j]
    using le by (simp add: level_index_simps)
qed

theorem difficulty_monotone_witness:
  "(0::int) \<le> 1 \<and> (1::int) \<le> 2 \<and> (2::int) < 3 \<and>
   (\<exists>a b. difficulty 1 3 = Inr a \<and> difficulty 2 3 = Inr b \<and> level_index a \<le> level_index b)"
proof -
  have h: "(0::int) \<le> 1" "(1::int) \<le> 2" "(2::int) < 3" by simp_all
  from difficulty_monotone[OF h] show ?thesis by simp
qed

subsection \<open>Facts about a session that is under way\<close>

lemma range_split:
  assumes "0 \<le> k" "k < N"
  shows "[0..N - 1] = [0..k - 1] @ k # [k + 1..N - 1]"
  using assms by (intro upto_split3) simp_all

lemma prefix_indices: "k < N \<Longrightarrow> \<forall>i\<in>set [0..k - 1]. 0 \<le> i \<and> i < N"
  by simp

lemma prefix_state:
  assumes "0 \<le> k" "k < N"
    and "qa_loop svc subject N [0..k - 1] (session_init key trace) = Inr s"
  shows "length (pairs s) = nat k"
    and "question_history (question_agent s) = map question (pairs s)"
    and "\<exists>cs. calls s = trace @ cs \<and> length cs = 2 * nat k \<and> alternating cs"
    and "map pair_id (pairs s) = [1..k]"
proof -
  from qa_loop_ok[OF prefix_indices[OF assms(2)] assms(3)] obtain new cs where
    n: "pairs s = pairs (session_init key trace) @ new" "map pair_id new = map (\<lambda>i. i + 1) [0..k - 1]"
      "question_history (question_agent s) =
         question_history (question_agent (session_init key trace)) @ map question new"
      "calls s = calls (session_init key trace) @ cs" "length cs = 2 * length [0..k - 1]"
      "alternating cs" by blast
  from n(1,2) show ids: "map pair_id (pairs s) = [1..k]"
    by (simp add: session_init_def map_succ_upto)
  have "length (pairs s) = length (map pair_id (pairs s))" by simp
  also have "\<dots> = nat k" unfolding ids by simp
  finally show "length (pairs s) = nat k" .
  from n(1,3) show "question_history (question_agent s) = map question (pairs s)"
    by (simp add: session_init_def QuestionAgent_init_def)
  from n(4,5,6) assms(1) show "\<exists>cs. calls s = trace @ cs \<and> length cs = 2 * nat k \<and> alternating cs"
    by (simp add: session_init_def)
qed

lemma loop_stops_at:
  assumes "0 \<le> k" "k < N"
    and "qa_loop svc subject N [0..k - 1] (session_init key trace) = Inr s"
    and "iteration_body svc subject N k s = Inl (e, s')"
  shows "run_qa_session svc subject N key trace = (Inl e, calls s')"
proof -
  have "run_loop svc subject N key trace = Inl (e, s')"
    unfolding run_loop_def range_split[OF assms(1,2)] qa_loop_append
    by (simp add: assms(3,4))
  then show ?thesis by (simp add: run_qa_session_def)
qed

text \<open>
  C3. Let the iterations before \<open>k\<close> have completed. If the question generation of
  iteration \<open>k\<close> raises, or it succeeds and the answer generation raises, then
  \<open>run_qa_session\<close> raises that very exception, a \<open>RuntimeError\<close>; the failing call
  is the last call made (no retry, no further iteration); and the caller gets the
  exception instead of a list, although \<open>k\<close> pairs had been built.
\<close>

theorem first_error_aborts_session:
  assumes "0 \<le> k" "k < N"
    and "qa_loop svc subject N [0..k - 1] (session_init key trace) = Inr s"
  shows "length (pairs s) = nat k \<and> length (calls s) = length trace + 2 * nat k \<and>
     (\<forall>e qa tr.
        generate_question svc subject k N (question_agent s, calls s) = (Inl e, qa, tr) \<longrightarrow>
        run_qa_session svc subject N key trace = (Inl e, tr) \<and>
        length tr = length (calls s) + 1 \<and> (\<exists>m. e = RuntimeError m)) \<and>
     (\<forall>q qa tr e tr'.
        generate_question svc subject k N (question_agent s, calls s) = (Inr q, qa, tr) \<and>
        generate_answer svc q (answer_agent s, tr) = (Inl e, tr') \<longrightarrow>
        run_qa_session svc subject N key trace = (Inl e, tr') \<and>
        length tr' = length (calls s) + 2 \<and> (\<exists>m. e = RuntimeError m))"
proof (intro conjI allI impI)
  show "length (pairs s) = nat k" by (rule prefix_state(1)[OF assms])
  from prefix_state(3)[OF assms] show "length (calls s) = length trace + 2 * nat k" by auto
next
  fix e qa tr
  assume gq: "generate_question svc subject k N (question_agent s, calls s) = (Inl e, qa, tr)"
  then have ib: "iteration_body svc subject N k s = Inl (e, s\<lparr>question_agent := qa, calls := tr\<rparr>)"
    by (simp add: iteration_body_def)
  from loop_stops_at[OF assms ib]
  show "run_qa_session svc subject N key trace = (Inl e, tr)" by simp
  from generate_question_err[OF assms(1,2) gq]
  show "length tr = length (calls s) + 1" "\<exists>m. e = RuntimeError m" by auto
next
  fix q qa tr e tr'
  assume "generate_question svc subject k N (question_agent s, calls s) = (Inr q, qa, tr) \<and>
          generate_answer svc q (answer_agent s, tr) = (Inl e, tr')"
  then have gq: "generate_question svc subject k N (question_agent s, calls s) = (Inr q, qa, tr)"
    and ga: "generate_answer svc q (answer_agent s, tr) = (Inl e, tr')" by simp_all
  then have ib: "iteration_body svc subject N k s = Inl (e, s\<lparr>question_agent := qa, calls := tr'\<rparr>)"
    by (simp add: iteration_body_def)
  from loop_stops_at[OF assms ib]
  show "run_qa_session svc subject N key trace = (Inl e, tr')" by simp
  from generate_question_ok[OF assms(1,2) gq] generate_answer_err[OF ga]
  show "length tr' = length (calls s) + 2" "\<exists>m. e = RuntimeError m" by auto
qed

theorem first_error_aborts_session_witness:
  "(0::int) \<le> 1 \<and> (1::int) < 3 \<and>
   (\<exists>s. qa_loop (\<lambda>k tr r. if length tr < 2 then ApiResponse [Some (ustr ''Q?'')]
                              else ApiRaise (ustr ''down''))
           (ustr ''Photosynthesis'') 3 [0..1 - 1] (session_init (ustr ''key'') []) = Inr s) \<and>
   (\<exists>tr. run_qa_session (\<lambda>k tr r. if length tr < 2 then ApiResponse [Some (ustr ''Q?'')]
                                   else ApiRaise (ustr ''down''))
           (ustr ''Photosynthesis'') 3 (ustr ''key'') [] =
           (Inl (RuntimeError (ustr ''Failed to generate question: '' @ ustr ''down'')), tr) \<and>
         length tr = 3)"
proof -
  let ?svc = "\<lambda>(k::pystr) (tr::request list) (r::request).
                if length tr < 2 then ApiResponse [Some (ustr ''Q?'')] else ApiRaise (ustr ''down'')"
  let ?subj = "ustr ''Photosynthesis''"
  let ?key = "ustr ''key''"
  have h: "(0::int) \<le> 1" "(1::int) < 3" by simp_all
  obtain d0 where d0: "difficulty 0 3 = Inr d0" using difficulty_in_range[of 0 3] by auto
  obtain d1 where d1: "difficulty 1 3 = Inr d1" using difficulty_in_range[of 1 3] by auto
  have "\<exists>s. qa_loop ?svc ?subj 3 [0..1 - 1] (session_init ?key []) = Inr s"
    by (simp add: upto_rec1 iteration_body_def generate_question_unfold[OF d0]
          generate_answer_def first_content_def session_init_def Let_def)
  then obtain s where s: "qa_loop ?svc ?subj 3 [0..1 - 1] (session_init ?key []) = Inr s" ..
  note t = first_error_aborts_session[OF h s]
  from t have len: "length (calls s) = 2" by simp
  have gq: "generate_question ?svc ?subj 1 3 (question_agent s, calls s) =
      (Inl (RuntimeError (ustr ''Failed to generate question: '' @ ustr ''down'')),
       question_agent s,
       calls s @ [question_request (question_agent s)
                    (question_prompt d1 ?subj (history_context (question_history (question_agent s))))])"
    unfolding generate_question_unfold[OF d1] by (simp add: len first_content_def)
  from t gq have
    "run_qa_session ?svc ?subj 3 ?key [] =
       (Inl (RuntimeError (ustr ''Failed to generate question: '' @ ustr ''down'')),
        calls s @ [question_request (question_agent s)
                    (question_prompt d1 ?subj (history_context (question_history (question_agent s))))])"
    by blast
  then have "\<exists>tr. run_qa_session ?svc ?subj 3 ?key [] =
       (Inl (RuntimeError (ustr ''Failed to generate question: '' @ ustr ''down'')), tr) \<and>
       length tr = 3"
    using len by simp
  with h s show ?thesis by blast
qed

lemma history_window_length: "length (history_window h) = min (length h) 3"
  by (simp add: history_window_def)

lemma history_window_suffix: "take (length h - 3) h @ history_window h = h"
  by (simp add: history_window_def)

text \<open>
  C4. At iteration \<open>i\<close> of a session whose earlier iterations completed, the history
  holds \<open>i\<close> questions, those of the pairs built so far (it grows by one with every
  iteration, without bound); the window that goes into the prompt is its last
  \<open>min(i, 3)\<close> entries; the request of the iteration carries a prompt built from that
  window; and a window never has more than 3 entries and is the end of the history.
\<close>

theorem history_window_bounded:
  assumes "0 \<le> i" "i < N"
    and "qa_loop svc subject N [0..i - 1] (session_init key trace) = Inr s"
  shows "length (question_history (question_agent s)) = nat i \<and>
         question_history (question_agent s) = map question (pairs s) \<and>
         length (history_window (question_history (question_agent s))) = min (nat i) 3 \<and>
         history_window (question_history (question_agent s)) =
           drop (nat i - 3) (map question (pairs s)) \<and>
         (\<exists>d. difficulty i N = Inr d \<and>
              snd (snd (generate_question svc subject i N (question_agent s, calls s))) =
                calls s @
                [question_request (question_agent s)
                   (question_prompt d subject
                      (if i = 0 then []
                       else ustr ''\<newline>\<newline>Previously asked questions:\<newline>'' @
                            join (ustr ''\<newline>'')
                              (map (\<lambda>q. ustr ''- '' @ q)
                                 (history_window (question_history (question_agent s))))))]) \<and>
         (\<forall>h. length (history_window h) \<le> 3 \<and> (\<exists>older. h = older @ history_window h))"
proof -
  let ?h = "question_history (question_agent s)"
  note st = prefix_state[OF assms]
  have len: "length ?h = nat i" unfolding st(2) using st(1) by simp
  have wl: "length (history_window ?h) = min (nat i) 3"
    unfolding history_window_length len ..
  have wd: "history_window ?h = drop (nat i - 3) (map question (pairs s))"
    using len by (simp add: history_window_def st(2))
  from difficulty_in_range[OF assms(1,2)] obtain d where d: "difficulty i N = Inr d" ..
  have ctx: "history_context ?h =
      (if i = 0 then []
       else ustr ''\<newline>\<newline>Previously asked questions:\<newline>'' @
            join (ustr ''\<newline>'') (map (\<lambda>q. ustr ''- '' @ q) (history_window ?h)))"
    using len assms(1) by (auto simp add: history_context_def)
  have sent: "snd (snd (generate_question svc subject i N (question_agent s, calls s))) =
      calls s @ [question_request (question_agent s)
                   (question_prompt d subject (history_context ?h))]"
    by (rule question_sent_with_difficulty[OF d])
  have gen: "length (history_window h) \<le> 3 \<and> (\<exists>older. h = older @ history_window h)" for h :: "pystr list"
    using history_window_suffix[of h] by (simp add: history_window_length) metis
  show ?thesis
    apply (intro conjI)
    subgoal by (rule len)
    subgoal by (rule st(2))
    subgoal by (rule wl)
    subgoal by (rule wd)
    subgoal using d sent unfolding ctx by blast
    subgoal using gen by blast
    done
qed

theorem history_window_bounded_witness:
  "(0::int) \<le> 5 \<and> (5::int) < 7 \<and>
   (\<exists>s. qa_loop (\<lambda>k tr r. ApiResponse [Some (ustr ''Q?'')]) (ustr ''Photosynthesis'') 7
           [0..5 - 1] (session_init (ustr ''key'') []) = Inr s \<and>
        length (question_history (question_agent s)) = 5 \<and>
        length (history_window (question_history (question_agent s))) = 3)"
proof -
  let ?svc = "\<lambda>(k::pystr) (tr::request list) (r::request). ApiResponse [Some (ustr ''Q?'')]"
  have h: "(0::int) \<le> 5" "(5::int) < 7" by simp_all
  have r: "reliable ?svc" by (simp add: reliable_def)
  from qa_loop_reliable[OF r prefix_indices[OF h(2)]] obtain s where
    s: "qa_loop ?svc (ustr ''Photosynthesis'') 7 [0..5 - 1] (session_init (ustr ''key'') []) = Inr s"
    by blast
  note t = history_window_bounded[OF h s]
  from t[THEN conjunct1] have a: "length (question_history (question_agent s)) = 5" by simp
  from t[THEN conjunct2, THEN conjunct2, THEN conjunct1]
  have b: "length (history_window (question_history (question_agent s))) = 3" by simp
  from s a b have "\<exists>s. qa_loop ?svc (ustr ''Photosynthesis'') 7
           [0..5 - 1] (session_init (ustr ''key'') []) = Inr s \<and>
        length (question_history (question_agent s)) = 5 \<and>
        length (history_window (question_history (question_agent s))) = 3"
    by (intro exI[of _ s] conjI)
  with h show ?thesis by (intro conjI)
qed

lemma strip_example: "strip (ustr ''  Q? '') = ustr ''Q?''"
  by (simp add: strip_def lstrip_def rstrip_def isspace_def ustr_def)

lemma generate_question_success:
  assumes "generate_question svc subject i N (self, tr) = (Inr q, self', tr')"
  shows "\<exists>r c cs. tr' = tr @ [r] \<and> svc (api_key self) tr r = ApiResponse (Some c # cs) \<and>
           q = strip c \<and> self' = self\<lparr>question_history := question_history self @ [q]\<rparr>"
  using assms
  by (auto simp add: generate_question_def Let_def first_content_def
        split: sum.splits api_result.splits list.splits option.splits)

text \<open>
  C5. When \<open>generate_question\<close> returns a question, it is the stripped content of the
  first choice of the response, and it has been appended to the history, of which it is
  the last entry. If the answer generation that follows raises, the iteration raises,
  the history still holds the question, and no pair has been added.
\<close>

theorem question_recorded_before_answer:
  assumes "generate_question svc subject i N (question_agent s, calls s) = (Inr q, qa, tr)"
  shows "question_history qa = question_history (question_agent s) @ [q] \<and>
         last (question_history qa) = q \<and>
         (\<exists>r c cs. tr = calls s @ [r] \<and>
            svc (api_key (question_agent s)) (calls s) r = ApiResponse (Some c # cs) \<and>
            q = strip c) \<and>
         (\<forall>e tr'. generate_answer svc q (answer_agent s, tr) = (Inl e, tr') \<longrightarrow>
            (\<exists>s'. iteration_body svc subject N i s = Inl (e, s') \<and>
                  question_history (question_agent s') = question_history (question_agent s) @ [q] \<and>
                  q \<in> set (question_history (question_agent s')) \<and>
                  pairs s' = pairs s))"
proof -
  from generate_question_success[OF assms] obtain r c cs where
    g: "tr = calls s @ [r]" "svc (api_key (question_agent s)) (calls s) r = ApiResponse (Some c # cs)"
      "q = strip c"
      "qa = (question_agent s)\<lparr>question_history := question_history (question_agent s) @ [q]\<rparr>"
    by blast
  have hist: "question_history qa = question_history (question_agent s) @ [q]"
    by (simp add: g(4))
  have fail: "\<exists>s'. iteration_body svc subject N i s = Inl (e, s') \<and>
                  question_history (question_agent s') = question_history (question_agent s) @ [q] \<and>
                  q \<in> set (question_history (question_agent s')) \<and> pairs s' = pairs s"
    if "generate_answer svc q (answer_agent s, tr) = (Inl e, tr')" for e tr'
    by (rule exI[of _ "s\<lparr>question_agent := qa, calls := tr'\<rparr>"])
       (simp add: iteration_body_def assms that hist)
  show ?thesis
    apply (intro conjI)
    subgoal by (rule hist)
    subgoal by (simp add: hist)
    subgoal using g(1,2,3) by blast
    subgoal using fail by blast
    done
qed

theorem question_recorded_before_answer_witness:
  "\<exists>qa tr e s'.
     generate_question
       (\<lambda>k tr r. if tr = [] then ApiResponse [Some (ustr ''  Q? '')] else ApiRaise (ustr ''down''))
       (ustr ''Photosynthesis'') 0 3
       (question_agent (session_init (ustr ''key'') []), calls (session_init (ustr ''key'') [])) =
       (Inr (ustr ''Q?''), qa, tr) \<and>
     question_history qa = [ustr ''Q?''] \<and>
     iteration_body
       (\<lambda>k tr r. if tr = [] then ApiResponse [Some (ustr ''  Q? '')] else ApiRaise (ustr ''down''))
       (ustr ''Photosynthesis'') 3 0 (session_init (ustr ''key'') []) = Inl (e, s') \<and>
     question_history (question_agent s') = [ustr ''Q?''] \<and> pairs s' = []"
proof -
  let ?svc = "\<lambda>(k::pystr) (tr::request list) (r::request).
                if tr = [] then ApiResponse [Some (ustr ''  Q? '')] else ApiRaise (ustr ''down'')"
  let ?subj = "ustr ''Photosynthesis''"
  let ?s = "session_init (ustr ''key'') []"
  obtain d0 where d0: "difficulty 0 3 = Inr d0" using difficulty_in_range[of 0 3] by auto
  let ?r = "question_request (question_agent ?s)
              (question_prompt d0 ?subj (history_context (question_history (question_agent ?s))))"
  let ?qa = "(question_agent ?s)\<lparr>question_history := question_history (question_agent ?s) @ [ustr ''Q?'']\<rparr>"
  have c: "calls ?s = []" "question_history (question_agent ?s) = []" "pairs ?s = []"
    by (simp_all add: session_init_def QuestionAgent_init_def)
  have gq: "generate_question ?svc ?subj 0 3 (question_agent ?s, calls ?s) =
              (Inr (ustr ''Q?''), ?qa, calls ?s @ [?r])"
    unfolding generate_question_unfold[OF d0] by (simp add: c first_content_def strip_example)
  note t = question_recorded_before_answer[OF gq]
  have ga: "generate_answer ?svc (ustr ''Q?'') (answer_agent ?s, calls ?s @ [?r]) =
      (Inl (RuntimeError (ustr ''Failed to generate answer: '' @ ustr ''down'')),
       calls ?s @ [?r] @ [answer_request (answer_agent ?s) (answer_prompt (ustr ''Q?''))])"
    by (simp add: generate_answer_def Let_def first_content_def)
  from t ga obtain s' where
    s': "iteration_body ?svc ?subj 3 0 ?s =
           Inl (RuntimeError (ustr ''Failed to generate answer: '' @ ustr ''down''), s')"
      "question_history (question_agent s') = question_history (question_agent ?s) @ [ustr ''Q?'']"
      "pairs s' = pairs ?s"
    by blast
  from t have "question_history ?qa = question_history (question_agent ?s) @ [ustr ''Q?'']"
    by (rule conjunct1)
  then have q: "question_history ?qa = [ustr ''Q?'']" by (simp only: c append_Nil)
  from s'(2,3) have s'': "question_history (question_agent s') = [ustr ''Q?'']" "pairs s' = []"
    by (simp_all only: c append_Nil)
  show ?thesis
    by (intro exI[of _ ?qa] exI[of _ "calls ?s @ [?r]"]
          exI[of _ "RuntimeError (ustr ''Failed to generate answer: '' @ ustr ''down'')"]
          exI[of _ s'] conjI gq q s'(1) s'')
qed

subsection \<open>Facts about stripping and validation\<close>

lemma strip_Nil: "strip [] = []"
  by (simp add: strip_def lstrip_def rstrip_def)

lemma strip_decompose:
  "\<exists>a b. v = a @ strip v @ b \<and> (\<forall>c\<in>set a. isspace c) \<and> (\<forall>c\<in>set b. isspace c)"
proof -
  let ?a = "takeWhile isspace v"
  let ?b = "rev (takeWhile isspace (rev (lstrip v)))"
  have "strip v @ ?b =
      rev (takeWhile isspace (rev (lstrip v)) @ dropWhile isspace (rev (lstrip v)))"
    unfolding strip_def rstrip_def by (simp only: rev_append)
  also have "\<dots> = lstrip v" by (simp only: takeWhile_dropWhile_id rev_rev_ident)
  finally have "lstrip v = strip v @ ?b" by (rule sym)
  moreover have "v = ?a @ lstrip v" by (simp add: lstrip_def)
  ultimately have "v = ?a @ strip v @ ?b" by simp
  moreover have "\<forall>c\<in>set ?a. isspace c" by (auto dest: set_takeWhileD)
  moreover have "\<forall>c\<in>set ?b. isspace c" by (auto dest: set_takeWhileD)
  ultimately show ?thesis by blast
qed

lemma strip_ends:
  assumes "strip v \<noteq> []"
  shows "\<not> isspace (hd (strip v))" and "\<not> isspace (last (strip v))"
proof -
  let ?t = "lstrip v"
  have ne: "dropWhile isspace (rev ?t) \<noteq> []" using assms by (simp add: strip_def rstrip_def)
  have "last (strip v) = hd (dropWhile isspace (rev ?t))"
    using ne by (simp add: strip_def rstrip_def last_rev)
  then show "\<not> isspace (last (strip v))" using hd_dropWhile[OF ne] by simp
  have t: "?t \<noteq> []" using ne by auto
  from strip_decompose[of ?t] obtain a b where
    ab: "?t = a @ strip ?t @ b" "\<forall>c\<in>set a. isspace c" by blast
  have idem: "strip ?t = strip v"
    by (simp add: strip_def lstrip_def dropWhile_idem)
  have "\<not> isspace (hd ?t)" using t unfolding lstrip_def by (rule hd_dropWhile)
  have "a = []"
  proof (rule ccontr)
    assume "a \<noteq> []"
    then have "hd ?t = hd a" "hd a \<in> set a" using ab(1) by (metis hd_append2, simp)
    then show False using ab(2) \<open>\<not> isspace (hd ?t)\<close> by simp
  qed
  then have "hd ?t = hd (strip v)" using ab(1) assms idem by (metis append_Nil hd_append2)
  then show "\<not> isspace (hd (strip v))" using \<open>\<not> isspace (hd ?t)\<close> by simp
qed

lemma validate_subject_ok:
  assumes "strip v \<noteq> []" shows "validate_subject (Some v) = Inr (strip v)"
proof -
  from assms have "v \<noteq> []" using strip_Nil by auto
  then have "\<not> length v < 1" by (cases v) simp_all
  then show ?thesis using assms by (simp add: validate_subject_def subject_not_empty_def)
qed

lemma validate_subject_blank:
  assumes "strip v = []" shows "\<exists>es. es \<noteq> [] \<and> validate_subject (Some v) = Inl es"
  using assms by (simp add: validate_subject_def subject_not_empty_def)

lemma validate_num_pairs_out:
  assumes "n < 1 \<or> 50 < n" shows "\<exists>es. es \<noteq> [] \<and> validate_num_pairs (Some n) = Inl es"
  using assms by (auto simp add: validate_num_pairs_def)

lemma validate_either:
  assumes "(\<exists>es. es \<noteq> [] \<and> validate_subject (raw_subject raw) = Inl es) \<or>
           (\<exists>es. es \<noteq> [] \<and> validate_num_pairs (raw_num_pairs raw) = Inl es)"
  shows "\<exists>es. es \<noteq> [] \<and> SessionRequest_validate raw = Inl es"
proof (cases "validate_subject (raw_subject raw)")
  case (Inl es)
  note s = this
  show ?thesis
  proof (cases "validate_num_pairs (raw_num_pairs raw)")
    case (Inl es')
    with s assms show ?thesis by (auto simp add: SessionRequest_validate_def)
  next
    case (Inr n)
    with s assms show ?thesis by (auto simp add: SessionRequest_validate_def)
  qed
next
  case (Inr v)
  with assms show ?thesis by (auto simp add: SessionRequest_validate_def)
qed

lemma core_raises_runtime_errors_only:
  assumes "run_qa_session svc subject n key trace = (Inl e, tr)"
  shows "\<exists>m. e = RuntimeError m"
proof -
  from assms obtain s where "run_loop svc subject n key trace = Inl (e, s)"
    unfolding run_qa_session_Inl by blast
  from qa_loop_err[OF range_indices this[unfolded run_loop_def]] show ?thesis by blast
qed

text \<open>
  C7. A request whose subject is empty or consists of whitespace only, or whose
  \<open>num_pairs\<close> is below 1 or above 50, does not pass \<open>SessionRequest\<close>: the route
  answers with the validation errors and leaves the world as it was, so that
  \<open>run_session\<close> and \<open>run_qa_session\<close> are not run and no call is made. And whatever
  its arguments, \<open>run_qa_session\<close> itself raises nothing but the \<open>RuntimeError\<close> of a
  failed generation, never a validation error.
\<close>

theorem invalid_request_rejected:
  assumes "(\<exists>v. raw_subject raw = Some v \<and> strip v = []) \<or>
           (\<exists>n. raw_num_pairs raw = Some n \<and> (n < 1 \<or> 50 < n))"
  shows "(\<exists>es. es \<noteq> [] \<and> SessionRequest_validate raw = Inl es \<and>
               post_run_session svc ev raw w = (RequestValidationError es, w)) \<and>
         (\<forall>subject n key trace e tr.
            run_qa_session svc subject n key trace = (Inl e, tr) \<longrightarrow>
            (\<exists>m. e = RuntimeError m) \<and> (\<forall>es. e \<noteq> ValidationError es))"
proof
  have "(\<exists>es. es \<noteq> [] \<and> validate_subject (raw_subject raw) = Inl es) \<or>
        (\<exists>es. es \<noteq> [] \<and> validate_num_pairs (raw_num_pairs raw) = Inl es)"
    using assms validate_subject_blank validate_num_pairs_out by metis
  from validate_either[OF this] obtain es where
    es: "es \<noteq> []" "SessionRequest_validate raw = Inl es" by blast
  then have "post_run_session svc ev raw w = (RequestValidationError es, w)"
    by (simp add: post_run_session_def)
  with es show "\<exists>es. es \<noteq> [] \<and> SessionRequest_validate raw = Inl es \<and>
               post_run_session svc ev raw w = (RequestValidationError es, w)" by blast
  show "\<forall>subject n key trace e tr.
            run_qa_session svc subject n key trace = (Inl e, tr) \<longrightarrow>
            (\<exists>m. e = RuntimeError m) \<and> (\<forall>es. e \<noteq> ValidationError es)"
    using core_raises_runtime_errors_only by blast
qed

lemma strip_blank_example: "strip (ustr ''  '') = []"
  by (simp add: strip_def lstrip_def rstrip_def isspace_def ustr_def)

theorem invalid_request_rejected_witness:
  "((\<exists>v. raw_subject \<lparr>raw_subject = Some (ustr ''  ''), raw_num_pairs = Some 51\<rparr> = Some v \<and>
         strip v = []) \<or>
    (\<exists>n. raw_num_pairs \<lparr>raw_subject = Some (ustr ''  ''), raw_num_pairs = Some 51\<rparr> = Some n \<and>
         (n < 1 \<or> 50 < n))) \<and>
   (\<exists>es. es \<noteq> [] \<and>
      post_run_session (\<lambda>k tr r. ApiResponse [Some (ustr ''Q?'')])
        \<lparr>getenv_OPENAI_API_KEY = Some (ustr ''key''), now_strftime = ustr ''20240101_120000'',
         isalnum = (\<lambda>c. False), write_raises = (\<lambda>p. None), str_validation_error = (\<lambda>es. [])\<rparr>
        \<lparr>raw_subject = Some (ustr ''  ''), raw_num_pairs = Some 51\<rparr>
        \<lparr>api_calls = [], files = []\<rparr> =
      (RequestValidationError es, \<lparr>api_calls = [], files = []\<rparr>))"
proof -
  let ?raw = "\<lparr>raw_subject = Some (ustr ''  ''), raw_num_pairs = Some 51\<rparr>"
  have h: "(\<exists>v. raw_subject ?raw = Some v \<and> strip v = []) \<or>
           (\<exists>n. raw_num_pairs ?raw = Some n \<and> (n < 1 \<or> 50 < n))"
    by (simp add: strip_blank_example)
  from invalid_request_rejected[OF h, THEN conjunct1] have
    "\<exists>es. es \<noteq> [] \<and>
      post_run_session (\<lambda>k tr r. ApiResponse [Some (ustr ''Q?'')])
        \<lparr>getenv_OPENAI_API_KEY = Some (ustr ''key''), now_strftime = ustr ''20240101_120000'',
         isalnum = (\<lambda>c. False), write_raises = (\<lambda>p. None), str_validation_error = (\<lambda>es. [])\<rparr>
        ?raw \<lparr>api_calls = [], files = []\<rparr> =
      (RequestValidationError es, \<lparr>api_calls = [], files = []\<rparr>)"
    by blast
  with h show ?thesis by (intro conjI)
qed

lemma validate_num_pairs_default: "validate_num_pairs None = Inr 10"
  by (simp add: validate_num_pairs_def)

lemma validate_ok:
  assumes "strip v \<noteq> []" "validate_num_pairs n = Inr m"
  shows "SessionRequest_validate \<lparr>raw_subject = Some v, raw_num_pairs = n\<rparr> =
           Inr \<lparr>req_subject = strip v, req_num_pairs = m\<rparr>"
  by (simp add: SessionRequest_validate_def validate_subject_ok[OF assms(1)] assms(2))

lemma range_ten: "[0..10 - 1] = [0, 1, 2, 3, 4, 5, 6, 7, 8, 9 :: int]"
  by (simp add: upto_rec1)

lemma run_qa_session_length:
  assumes "run_qa_session svc subject N key trace = (Inr ps, tr)"
  shows "length ps = nat N" and "length tr = length trace + 2 * nat N"
proof -
  from assms obtain s where s: "run_loop svc subject N key trace = Inr s" "ps = pairs s" "tr = calls s"
    unfolding run_qa_session_Inr by blast
  from run_loop_ok(1)[OF s(1)] have "length (map pair_id ps) = length [1..N]" by (simp add: s(2))
  then show "length ps = nat N" by simp
  from run_loop_ok(3)[OF s(1)] show "length tr = length trace + 2 * nat N" by (auto simp add: s(3))
qed

lemma run_session_calls:
  assumes "getenv_OPENAI_API_KEY ev = Some key" "key \<noteq> []"
  shows "api_calls (snd (run_session svc ev request w)) =
           snd (run_qa_session svc (req_subject request) (req_num_pairs request) key (api_calls w))"
  using assms
  by (simp add: run_session_def Let_def split: prod.splits sum.splits option.splits)

lemma run_session_returned:
  assumes "run_session svc ev request w = (Returned resp, w')"
  shows "resp_subject resp = req_subject request"
    and "files w' = files w @ [(session_filepath ev (req_subject request), resp)]"
  using assms
  by (auto simp add: run_session_def handle_exception_def Let_def
        split: option.splits if_splits sum.splits prod.splits exn.splits)

lemma run_session_reliable:
  assumes "reliable svc" "getenv_OPENAI_API_KEY ev = Some key" "key \<noteq> []"
    and "write_raises ev (session_filepath ev (req_subject request)) = None"
  shows "\<exists>resp w'. run_session svc ev request w = (Returned resp, w')"
proof -
  from qa_loop_reliable[OF assms(1) range_indices] obtain s where
    s: "run_loop svc (req_subject request) (req_num_pairs request) key (api_calls w) = Inr s"
    unfolding run_loop_def by blast
  then have r: "run_qa_session svc (req_subject request) (req_num_pairs request) key (api_calls w) =
      (Inr (pairs s), calls s)" by (simp add: run_qa_session_def)
  from QAPairs_ok[OF ids_from_one[OF run_loop_ok(1)[OF s]]] have q: "QAPairs (pairs s) = Inr (pairs s)" .
  show ?thesis by (simp add: run_session_def assms(2,3,4) r q Let_def)
qed

lemma QAPairs_Inr:
  assumes "QAPairs ps = Inr ps'" shows "ps' = ps"
  using assms
  by (induction ps arbitrary: ps') (auto simp add: QAPair_def split: sum.splits if_splits)

lemma run_session_returned_pairs:
  assumes "run_session svc ev request w = (Returned resp, w')"
  shows "\<exists>key. getenv_OPENAI_API_KEY ev = Some key \<and> key \<noteq> [] \<and>
           run_qa_session svc (req_subject request) (req_num_pairs request) key (api_calls w) =
             (Inr (resp_pairs resp), api_calls w') \<and>
           resp_num_pairs resp = int (length (resp_pairs resp))"
proof -
  from assms obtain key ps tr where
    k: "getenv_OPENAI_API_KEY ev = Some key" "key \<noteq> []"
      "run_qa_session svc (req_subject request) (req_num_pairs request) key (api_calls w) = (Inr ps, tr)"
    and resp: "QAPairs ps = Inr (resp_pairs resp)"
      "resp_num_pairs resp = int (length (resp_pairs resp))" "api_calls w' = tr"
    by (auto simp add: run_session_def handle_exception_def Let_def
          split: option.splits if_splits sum.splits prod.splits exn.splits)
  from QAPairs_Inr[OF resp(1)] have "resp_pairs resp = ps" .
  with k resp show ?thesis by simp
qed

lemma strip_cells_example: "strip (ustr ''  Cells '') = ustr ''Cells''"
  by (simp add: strip_def lstrip_def rstrip_def isspace_def ustr_def)

text \<open>
  C9. A request without the field \<open>num_pairs\<close>, with a subject that is not blank,
  passes validation with \<open>num_pairs = 10\<close>, and \<open>run_session\<close> is run on that request.
  With the API key configured, the calls it makes are those of \<open>run_qa_session\<close> called
  with \<open>num_pairs = 10\<close>; a response that it returns holds the pairs that this call
  returned, ten of them, numbered 1 to 10, with \<open>num_pairs = 10\<close>, after 20 calls; and
  with a service that answers and a file that can be written it does return one. The
  loop of that call runs over the ten indices 0..9.
\<close>

theorem num_pairs_defaults_to_ten:
  assumes "strip v \<noteq> []"
  shows "SessionRequest_validate \<lparr>raw_subject = Some v, raw_num_pairs = None\<rparr> =
           Inr \<lparr>req_subject = strip v, req_num_pairs = 10\<rparr> \<and>
         post_run_session svc ev \<lparr>raw_subject = Some v, raw_num_pairs = None\<rparr> w =
           run_session svc ev \<lparr>req_subject = strip v, req_num_pairs = 10\<rparr> w \<and>
         (\<forall>k. getenv_OPENAI_API_KEY ev = Some k \<and> k \<noteq> [] \<longrightarrow>
            api_calls (snd (post_run_session svc ev \<lparr>raw_subject = Some v, raw_num_pairs = None\<rparr> w)) =
              snd (run_qa_session svc (strip v) 10 k (api_calls w))) \<and>
         (\<forall>resp w'.
            post_run_session svc ev \<lparr>raw_subject = Some v, raw_num_pairs = None\<rparr> w =
              (Returned resp, w') \<longrightarrow>
            (\<exists>k. getenv_OPENAI_API_KEY ev = Some k \<and>
                 run_qa_session svc (strip v) 10 k (api_calls w) =
                   (Inr (resp_pairs resp), api_calls w')) \<and>
            resp_num_pairs resp = 10 \<and> length (resp_pairs resp) = 10 \<and>
            map pair_id (resp_pairs resp) = [1, 2, 3, 4, 5, 6, 7, 8, 9, 10] \<and>
            length (api_calls w') = length (api_calls w) + 20) \<and>
         (\<forall>k. reliable svc \<and> getenv_OPENAI_API_KEY ev = Some k \<and> k \<noteq> [] \<and>
              write_raises ev (session_filepath ev (strip v)) = None \<longrightarrow>
            (\<exists>resp w'.
               post_run_session svc ev \<lparr>raw_subject = Some v, raw_num_pairs = None\<rparr> w =
                 (Returned resp, w') \<and> resp_num_pairs resp = 10)) \<and>
         run_loop svc (strip v) 10 key trace =
           qa_loop svc (strip v) 10 [0, 1, 2, 3, 4, 5, 6, 7, 8, 9] (session_init key trace) \<and>
         (\<forall>ps tr. run_qa_session svc (strip v) 10 key trace = (Inr ps, tr) \<longrightarrow>
            length ps = 10 \<and> length tr = length trace + 20) \<and>
         (reliable svc \<longrightarrow> (\<exists>ps tr. run_qa_session svc (strip v) 10 key trace = (Inr ps, tr)))"
proof -
  let ?raw = "\<lparr>raw_subject = Some v, raw_num_pairs = None\<rparr>"
  let ?req = "\<lparr>req_subject = strip v, req_num_pairs = 10\<rparr>"
  have v: "SessionRequest_validate ?raw = Inr ?req"
    by (rule validate_ok[OF assms validate_num_pairs_default])
  have p: "post_run_session svc ev ?raw w = run_session svc ev ?req w"
    by (simp add: post_run_session_def v)
  have c: "api_calls (snd (post_run_session svc ev ?raw w)) =
             snd (run_qa_session svc (strip v) 10 k (api_calls w))"
    if "getenv_OPENAI_API_KEY ev = Some k \<and> k \<noteq> []" for k
    unfolding p using run_session_calls[of ev k svc ?req w] that by simp
  have r: "(\<exists>k. getenv_OPENAI_API_KEY ev = Some k \<and>
                 run_qa_session svc (strip v) 10 k (api_calls w) =
                   (Inr (resp_pairs resp), api_calls w')) \<and>
            resp_num_pairs resp = 10 \<and> length (resp_pairs resp) = 10 \<and>
            map pair_id (resp_pairs resp) = [1, 2, 3, 4, 5, 6, 7, 8, 9, 10] \<and>
            length (api_calls w') = length (api_calls w) + 20"
    if "post_run_session svc ev ?raw w = (Returned resp, w')" for resp w'
  proof -
    from run_session_returned_pairs[OF that[unfolded p]] obtain k where
      k: "getenv_OPENAI_API_KEY ev = Some k"
        "run_qa_session svc (strip v) 10 k (api_calls w) = (Inr (resp_pairs resp), api_calls w')"
        "resp_num_pairs resp = int (length (resp_pairs resp))"
      by auto
    from run_qa_session_length[OF k(2)] have
      len: "length (resp_pairs resp) = 10" "length (api_calls w') = length (api_calls w) + 20"
      by simp_all
    from k(2) obtain s where s: "run_loop svc (strip v) 10 k (api_calls w) = Inr s"
      "resp_pairs resp = pairs s" unfolding run_qa_session_Inr by blast
    from run_loop_ok(1)[OF s(1)] have "map pair_id (resp_pairs resp) = [1..10]" by (simp add: s(2))
    also have "[1..10] = [1, 2, 3, 4, 5, 6, 7, 8, 9, 10 :: int]" by (simp add: upto_rec1)
    finally have ids: "map pair_id (resp_pairs resp) = [1, 2, 3, 4, 5, 6, 7, 8, 9, 10]" .
    from k(3) len(1) have "resp_num_pairs resp = 10" by simp
    with k(1,2) len ids show ?thesis by blast
  qed
  have e: "\<exists>resp w'. post_run_session svc ev ?raw w = (Returned resp, w') \<and> resp_num_pairs resp = 10"
    if "reliable svc \<and> getenv_OPENAI_API_KEY ev = Some k \<and> k \<noteq> [] \<and>
        write_raises ev (session_filepath ev (strip v)) = None" for k
  proof -
    from that have "\<exists>resp w'. run_session svc ev ?req w = (Returned resp, w')"
      by (intro run_session_reliable[of svc ev k]) simp_all
    then obtain resp w' where "post_run_session svc ev ?raw w = (Returned resp, w')"
      unfolding p by blast
    with r[OF this] show ?thesis by blast
  qed
  have l: "run_loop svc (strip v) 10 key trace =
           qa_loop svc (strip v) 10 [0, 1, 2, 3, 4, 5, 6, 7, 8, 9] (session_init key trace)"
    unfolding run_loop_def range_ten ..
  have n: "length ps = 10 \<and> length tr = length trace + 20"
    if "run_qa_session svc (strip v) 10 key trace = (Inr ps, tr)" for ps tr
    using run_qa_session_length[OF that] by simp
  have x: "\<exists>ps tr. run_qa_session svc (strip v) 10 key trace = (Inr ps, tr)" if "reliable svc"
  proof -
    from qa_loop_reliable[OF that range_indices] obtain s where
      "run_loop svc (strip v) 10 key trace = Inr s" unfolding run_loop_def by blast
    then show ?thesis by (simp add: run_qa_session_def)
  qed
  show ?thesis
    apply (intro conjI)
    subgoal by (rule v)
    subgoal by (rule p)
    subgoal using c by blast
    subgoal using r by blast
    subgoal using e by blast
    subgoal by (rule l)
    subgoal using n by blast
    subgoal using x by blast
    done
qed

theorem num_pairs_defaults_to_ten_witness:
  "strip (ustr ''  Cells '') \<noteq> [] \<and>
   SessionRequest_validate \<lparr>raw_subject = Some (ustr ''  Cells ''), raw_num_pairs = None\<rparr> =
     Inr \<lparr>req_subject = ustr ''Cells'', req_num_pairs = 10\<rparr> \<and>
   (\<exists>resp w'.
      post_run_session (\<lambda>k tr r. ApiResponse [Some (ustr ''Q?'')])
        \<lparr>getenv_OPENAI_API_KEY = Some (ustr ''key''), now_strftime = ustr ''20240101_120000'',
         isalnum = (\<lambda>c. c \<noteq> 32), write_raises = (\<lambda>p. None), str_validation_error = (\<lambda>es. [])\<rparr>
        \<lparr>raw_subject = Some (ustr ''  Cells ''), raw_num_pairs = None\<rparr>
        \<lparr>api_calls = [], files = []\<rparr> = (Returned resp, w') \<and>
      resp_num_pairs resp = 10 \<and> length (resp_pairs resp) = 10 \<and>
      map pair_id (resp_pairs resp) = [1, 2, 3, 4, 5, 6, 7, 8, 9, 10] \<and>
      length (api_calls w') = 20)"
proof -
  let ?svc = "\<lambda>(k::pystr) (tr::request list) (r::request). ApiResponse [Some (ustr ''Q?'')]"
  let ?ev = "\<lparr>getenv_OPENAI_API_KEY = Some (ustr ''key''), now_strftime = ustr ''20240101_120000'',
         isalnum = (\<lambda>c. c \<noteq> (32::nat)), write_raises = (\<lambda>p::pystr. None :: pystr option),
         str_validation_error = (\<lambda>es::validation_error list. [] :: pystr)\<rparr>"
  let ?raw = "\<lparr>raw_subject = Some (ustr ''  Cells ''), raw_num_pairs = None\<rparr>"
  let ?w = "\<lparr>api_calls = [], files = []\<rparr>"
  have h: "strip (ustr ''  Cells '') \<noteq> []"
    unfolding strip_cells_example by (simp add: ustr_def)
  have rel: "reliable ?svc" by (simp add: reliable_def)
  note t = num_pairs_defaults_to_ten[OF h, of ?svc ?ev ?w "[]" "[]"]
  from t[THEN conjunct1] have a:
    "SessionRequest_validate ?raw = Inr \<lparr>req_subject = ustr ''Cells'', req_num_pairs = 10\<rparr>"
    unfolding strip_cells_example .
  have cfg: "reliable ?svc \<and> getenv_OPENAI_API_KEY ?ev = Some (ustr ''key'') \<and> ustr ''key'' \<noteq> [] \<and>
      write_raises ?ev (session_filepath ?ev (strip (ustr ''  Cells ''))) = None"
    using rel by (simp add: ustr_def)
  from t[THEN conjunct2, THEN conjunct2, THEN conjunct2, THEN conjunct2, THEN conjunct1,
         rule_format, OF cfg]
  obtain resp w' where run: "post_run_session ?svc ?ev ?raw ?w = (Returned resp, w')" by blast
  from t[THEN conjunct2, THEN conjunct2, THEN conjunct2, THEN conjunct1, rule_format, OF run]
  have "resp_num_pairs resp = 10" "length (resp_pairs resp) = 10"
    "map pair_id (resp_pairs resp) = [1, 2, 3, 4, 5, 6, 7, 8, 9, 10]"
    "length (api_calls w') = length (api_calls ?w) + 20" by blast+
  then have "resp_num_pairs resp = 10 \<and> length (resp_pairs resp) = 10 \<and>
      map pair_id (resp_pairs resp) = [1, 2, 3, 4, 5, 6, 7, 8, 9, 10] \<and>
      length (api_calls w') = 20" by simp
  with run have b: "\<exists>resp w'. post_run_session ?svc ?ev ?raw ?w = (Returned resp, w') \<and>
      resp_num_pairs resp = 10 \<and> length (resp_pairs resp) = 10 \<and>
      map pair_id (resp_pairs resp) = [1, 2, 3, 4, 5, 6, 7, 8, 9, 10] \<and>
      length (api_calls w') = 20"
    by (intro exI[of _ resp] exI[of _ w'] conjI) simp_all
  from h a b show ?thesis by (intro conjI)
qed

text \<open>
  C10. For a request that passes validation, the subject that \<open>run_session\<close> works
  with is the stripped form of the submitted one: it is what \<open>run_qa_session\<close> is
  called with, what the response carries, and what the name of the saved file is made
  from. The stripped form is the submitted text without the whitespace at its two ends:
  what is cut off is whitespace, and what remains neither begins nor ends with it.
\<close>

theorem subject_is_stripped:
  assumes "strip v \<noteq> []" "validate_num_pairs n = Inr m"
  shows "post_run_session svc ev \<lparr>raw_subject = Some v, raw_num_pairs = n\<rparr> w =
           run_session svc ev \<lparr>req_subject = strip v, req_num_pairs = m\<rparr> w \<and>
         (\<forall>key. getenv_OPENAI_API_KEY ev = Some key \<and> key \<noteq> [] \<longrightarrow>
            api_calls (snd (post_run_session svc ev \<lparr>raw_subject = Some v, raw_num_pairs = n\<rparr> w)) =
              snd (run_qa_session svc (strip v) m key (api_calls w))) \<and>
         (\<forall>resp w'.
            post_run_session svc ev \<lparr>raw_subject = Some v, raw_num_pairs = n\<rparr> w = (Returned resp, w') \<longrightarrow>
            resp_subject resp = strip v \<and>
            files w' = files w @
              [(ustr ''qa_sessions/'' @ ustr ''qa_session_'' @ safe_subject ev (strip v) @
                ustr ''_'' @ now_strftime ev @ ustr ''.json'', resp)]) \<and>
         (\<exists>a b. v = a @ strip v @ b \<and> (\<forall>c\<in>set a. isspace c) \<and> (\<forall>c\<in>set b. isspace c)) \<and>
         \<not> isspace (hd (strip v)) \<and> \<not> isspace (last (strip v))"
proof -
  let ?raw = "\<lparr>raw_subject = Some v, raw_num_pairs = n\<rparr>"
  let ?req = "\<lparr>req_subject = strip v, req_num_pairs = m\<rparr>"
  have p: "post_run_session svc ev ?raw w = run_session svc ev ?req w"
    by (simp add: post_run_session_def validate_ok[OF assms])
  have c: "api_calls (snd (post_run_session svc ev ?raw w)) =
              snd (run_qa_session svc (strip v) m key (api_calls w))"
    if "getenv_OPENAI_API_KEY ev = Some key \<and> key \<noteq> []" for key
    unfolding p using run_session_calls[of ev key svc ?req w] that by simp
  have r: "resp_subject resp = strip v \<and>
            files w' = files w @
              [(ustr ''qa_sessions/'' @ ustr ''qa_session_'' @ safe_subject ev (strip v) @
                ustr ''_'' @ now_strftime ev @ ustr ''.json'', resp)]"
    if "post_run_session svc ev ?raw w = (Returned resp, w')" for resp w'
    using run_session_returned[OF that[unfolded p]] by (simp add: session_filepath_def)
  show ?thesis
    apply (intro conjI)
    subgoal by (rule p)
    subgoal using c by blast
    subgoal using r by blast
    subgoal by (rule strip_decompose)
    subgoal by (rule strip_ends(1)[OF assms(1)])
    subgoal by (rule strip_ends(2)[OF assms(1)])
    done
qed

theorem subject_is_stripped_witness:
  "strip (ustr ''  Cells '') \<noteq> [] \<and> validate_num_pairs (Some 2) = Inr 2 \<and>
   (\<exists>resp w'.
      post_run_session (\<lambda>k tr r. ApiResponse [Some (ustr ''Q?'')])
        \<lparr>getenv_OPENAI_API_KEY = Some (ustr ''key''), now_strftime = ustr ''20240101_120000'',
         isalnum = (\<lambda>c. c \<noteq> 32), write_raises = (\<lambda>p. None), str_validation_error = (\<lambda>es. [])\<rparr>
        \<lparr>raw_subject = Some (ustr ''  Cells ''), raw_num_pairs = Some 2\<rparr>
        \<lparr>api_calls = [], files = []\<rparr> = (Returned resp, w') \<and>
      resp_subject resp = ustr ''Cells'' \<and>
      map fst (files w') = [ustr ''qa_sessions/qa_session_Cells_20240101_120000.json''])"
proof -
  let ?svc = "\<lambda>(k::pystr) (tr::request list) (r::request). ApiResponse [Some (ustr ''Q?'')]"
  let ?ev = "\<lparr>getenv_OPENAI_API_KEY = Some (ustr ''key''), now_strftime = ustr ''20240101_120000'',
         isalnum = (\<lambda>c. c \<noteq> (32::nat)), write_raises = (\<lambda>p::pystr. None :: pystr option),
         str_validation_error = (\<lambda>es::validation_error list. [] :: pystr)\<rparr>"
  let ?raw = "\<lparr>raw_subject = Some (ustr ''  Cells ''), raw_num_pairs = Some 2\<rparr>"
  let ?w = "\<lparr>api_calls = [], files = []\<rparr>"
  have h1: "strip (ustr ''  Cells '') \<noteq> []"
    unfolding strip_cells_example by (simp add: ustr_def)
  have h2: "validate_num_pairs (Some 2) = Inr 2" by (simp add: validate_num_pairs_def)
  note t = subject_is_stripped[OF h1 h2, of ?svc ?ev ?w, unfolded strip_cells_example]
  have rel: "reliable ?svc" by (simp add: reliable_def)
  have "\<exists>resp w'. run_session ?svc ?ev \<lparr>req_subject = ustr ''Cells'', req_num_pairs = 2\<rparr> ?w =
      (Returned resp, w')"
    by (rule run_session_reliable[OF rel, of _ "ustr ''key''"]) (simp_all add: ustr_def)
  then obtain resp w' where "post_run_session ?svc ?ev ?raw ?w = (Returned resp, w')"
    unfolding t[THEN conjunct1] by blast
  note run = this
  with t have "resp_subject resp = ustr ''Cells'' \<and>
      files w' = files ?w @
        [(ustr ''qa_sessions/'' @ ustr ''qa_session_'' @ safe_subject ?ev (ustr ''Cells'') @
          ustr ''_'' @ now_strftime ?ev @ ustr ''.json'', resp)]" by blast
  then have "resp_subject resp = ustr ''Cells''"
    "map fst (files w') = [ustr ''qa_sessions/qa_session_Cells_20240101_120000.json'']"
    by (simp_all add: safe_subject_def ustr_def)
  with run have "\<exists>resp w'. post_run_session ?svc ?ev ?raw ?w = (Returned resp, w') \<and>
      resp_subject resp = ustr ''Cells'' \<and>
      map fst (files w') = [ustr ''qa_sessions/qa_session_Cells_20240101_120000.json'']"
    by (intro exI[of _ resp] exI[of _ w'] conjI)
  with h1 h2 show ?thesis by (intro conjI)
qed

subsection \<open>Facts about the calls\<close>

lemma question_answer_call_differ: "\<not> (question_call r \<and> answer_call r)"
  by (auto simp add: question_call_def answer_call_def)

lemma run_qa_session_calls: "\<exists>cs. snd (run_qa_session svc subject N key trace) = trace @ cs \<and> alternating cs"
proof (cases "run_loop svc subject N key trace")
  case (Inl err)
  obtain e s where es: "err = (e, s)" by (cases err)
  from qa_loop_err[OF range_indices Inl[unfolded run_loop_def es]] obtain cs where
    "calls s = calls (session_init key trace) @ cs" "alternating cs" by blast
  then show ?thesis by (simp add: run_qa_session_def Inl es session_init_def)
next
  case (Inr s)
  from run_loop_ok(3)[OF Inr] show ?thesis by (auto simp add: run_qa_session_def Inr)
qed

text \<open>
  C8. The one call that \<open>generate_question\<close> makes has temperature 0.7 and
  \<open>max_tokens\<close> 200 (inside a session, where the difficulty is defined); the one call
  that \<open>generate_answer\<close> makes has temperature 0.5 and \<open>max_tokens\<close> 500; the calls
  that a session adds to the log alternate between the two, question first; no request
  has both configurations; and the two temperatures are the doubles written 0.7 and 0.5.
\<close>

theorem generation_configurations:
  "(\<forall>subject i N self tr. 0 \<le> i \<and> i < N \<longrightarrow>
      (\<exists>r. snd (snd (generate_question svc subject i N (self, tr))) = tr @ [r] \<and>
           temperature r = binary64 (7 / 10) \<and> max_tokens r = 200 \<and> question_call r)) \<and>
   (\<forall>q self tr.
      \<exists>r. snd (generate_answer svc q (self, tr)) = tr @ [r] \<and>
          temperature r = binary64 (5 / 10) \<and> max_tokens r = 500 \<and> answer_call r) \<and>
   (\<forall>subject N key trace.
      \<exists>cs. snd (run_qa_session svc subject N key trace) = trace @ cs \<and> alternating cs) \<and>
   (\<forall>r. \<not> (question_call r \<and> answer_call r)) \<and>
   binary64 (7 / 10) = 3152519739159347 / 4503599627370496 \<and> binary64 (5 / 10) = 1 / 2"
proof (intro conjI allI impI)
  fix subject :: pystr and i N :: int and self :: QuestionAgent and tr :: "request list"
  assume "0 \<le> i \<and> i < N"
  then obtain d where d: "difficulty i N = Inr d" using difficulty_in_range by blast
  let ?r = "question_request self (question_prompt d subject (history_context (question_history self)))"
  have "snd (snd (generate_question svc subject i N (self, tr))) = tr @ [?r]"
    by (rule question_sent_with_difficulty[OF d])
  moreover have "temperature ?r = binary64 (7 / 10)" "max_tokens ?r = 200"
    by (simp_all add: question_request_def)
  ultimately show "\<exists>r. snd (snd (generate_question svc subject i N (self, tr))) = tr @ [r] \<and>
           temperature r = binary64 (7 / 10) \<and> max_tokens r = 200 \<and> question_call r"
    using question_request_call by blast
next
  fix q :: pystr and self :: agent and tr :: "request list"
  let ?r = "answer_request self (answer_prompt q)"
  have "snd (generate_answer svc q (self, tr)) = tr @ [?r]"
    by (simp add: generate_answer_def Let_def split: sum.splits)
  moreover have "temperature ?r = binary64 (5 / 10)" "max_tokens ?r = 500"
    by (simp_all add: answer_request_def)
  ultimately show "\<exists>r. snd (generate_answer svc q (self, tr)) = tr @ [r] \<and>
          temperature r = binary64 (5 / 10) \<and> max_tokens r = 500 \<and> answer_call r"
    using answer_request_call by blast
next
  fix subject key :: pystr and N :: int and trace :: "request list"
  show "\<exists>cs. snd (run_qa_session svc subject N key trace) = trace @ cs \<and> alternating cs"
    by (rule run_qa_session_calls)
next
  fix r show "\<not> (question_call r \<and> answer_call r)" by (rule question_answer_call_differ)
next
  show "binary64 (7 / 10) = 3152519739159347 / 4503599627370496" by (rule c07)
  show "binary64 (5 / 10) = 1 / 2" by (rule c05)
qed

theorem generation_configurations_witness:
  "(0::int) \<le> 0 \<and> (0::int) < 2 \<and>
   (\<exists>r. snd (snd (generate_question (\<lambda>k tr r. ApiResponse [Some (ustr ''Q?'')])
                     (ustr ''Cells'') 0 2 (QuestionAgent_init (ustr ''key''), []))) = [r] \<and>
        temperature r = 3152519739159347 / 4503599627370496 \<and> max_tokens r = 200) \<and>
   (\<exists>r. snd (generate_answer (\<lambda>k tr r. ApiResponse [Some (ustr ''Q?'')])
                (ustr ''Q?'') (AnswerAgent_init (ustr ''key''), [])) = [r] \<and>
        temperature r = 1 / 2 \<and> max_tokens r = 500)"
proof -
  let ?svc = "\<lambda>(k::pystr) (tr::request list) (r::request). ApiResponse [Some (ustr ''Q?'')]"
  note t = generation_configurations[of ?svc]
  have h: "(0::int) \<le> 0 \<and> (0::int) < 2" by simp
  from t[THEN conjunct1, rule_format, OF h, of "ustr ''Cells''" "QuestionAgent_init (ustr ''key'')" "[]"]
  obtain r where r: "snd (snd (generate_question ?svc (ustr ''Cells'') 0 2
        (QuestionAgent_init (ustr ''key''), []))) = [] @ [r]"
    "temperature r = binary64 (7 / 10)" "max_tokens r = 200" by blast
  from t have c7: "binary64 (7 / 10) = 3152519739159347 / 4503599627370496" by blast
  from r c7 have a: "\<exists>r. snd (snd (generate_question ?svc (ustr ''Cells'') 0 2
        (QuestionAgent_init (ustr ''key''), []))) = [r] \<and>
        temperature r = 3152519739159347 / 4503599627370496 \<and> max_tokens r = 200"
    by (intro exI[of _ r]) simp
  from t[THEN conjunct2, THEN conjunct1, rule_format, of "ustr ''Q?''" "AnswerAgent_init (ustr ''key'')" "[]"]
  obtain r' where r': "snd (generate_answer ?svc (ustr ''Q?'') (AnswerAgent_init (ustr ''key''), [])) = [] @ [r']"
    "temperature r' = binary64 (5 / 10)" "max_tokens r' = 500" by blast
  from t have c5: "binary64 (5 / 10) = 1 / 2" by blast
  from r' c5 have b: "\<exists>r. snd (generate_answer ?svc (ustr ''Q?'') (AnswerAgent_init (ustr ''key''), [])) = [r] \<and>
        temperature r = 1 / 2 \<and> max_tokens r = 500"
    by (intro exI[of _ r']) simp
  from h a b show ?thesis by blast
qed

end
